theory Spec2Isabelle
  imports Main "HOL-Library.Word" "HOL-Library.AList" "HOL-Library.Sublist" "HOL-Library.Multiset"
begin

section \<open>Warmup planner: per-type subresource headers (session/warmup.go)\<close>

text \<open>
  \<^verbatim>\<open>type resourceType int\<close> with the four \<^verbatim>\<open>iota\<close> constants of warmup.go. Only these
  four values are ever constructed, so the type is an enumeration.
\<close>

datatype resourceType = resourceCSS | resourceJS | resourceImage | resourceFont

text \<open>\<^verbatim>\<open>subresource\<close>: a URL discovered in the HTML with its type.\<close>

record subresource =
  res_url :: string
  res_typ :: resourceType

text \<open>
  The request context of package \<^verbatim>\<open>fingerprint\<close> and the three Sec-Fetch values that
  \<^verbatim>\<open>GenerateSecFetchHeaders\<close> derives from it. The package is part of the repository,
  but its source is not among the files at hand; warmup.go only calls it.
\<close>

record RequestContext =
  ctxMode :: string
  ctxDest :: string
  ctxSite :: string

record SecFetchHeaders =
  Site :: string
  Mode :: string
  Dest :: string

text \<open>
  Modelled from the spec: \<^verbatim>\<open>fingerprint.StyleContext\<close>, whose source is missing. The
  table of per-subresource headers gives Sec-Fetch-Dest \<^verbatim>\<open>style\<close> and Sec-Fetch-Mode
  \<^verbatim>\<open>no-cors\<close> for CSS. The Sec-Fetch-Site value is "derived by comparing page-URL origin
  vs subresource-URL origin"; that classification is the parameter \<open>siteOf\<close>.
\<close>

definition StyleContext :: "(string \<Rightarrow> string \<Rightarrow> string) \<Rightarrow> string \<Rightarrow> string \<Rightarrow> RequestContext" where
  "StyleContext siteOf pageURL targetURL =
     \<lparr>ctxMode = ''no-cors'', ctxDest = ''style'', ctxSite = siteOf pageURL targetURL\<rparr>"

text \<open>
  Modelled from the spec: \<^verbatim>\<open>fingerprint.ScriptContext\<close>, whose source is missing; the
  table gives \<^verbatim>\<open>script\<close> and \<^verbatim>\<open>no-cors\<close> for JS.
\<close>

definition ScriptContext :: "(string \<Rightarrow> string \<Rightarrow> string) \<Rightarrow> string \<Rightarrow> string \<Rightarrow> RequestContext" where
  "ScriptContext siteOf pageURL targetURL =
     \<lparr>ctxMode = ''no-cors'', ctxDest = ''script'', ctxSite = siteOf pageURL targetURL\<rparr>"

text \<open>
  Modelled from the spec: \<^verbatim>\<open>fingerprint.ImageContext\<close>, whose source is missing; the
  table gives \<^verbatim>\<open>image\<close> and \<^verbatim>\<open>no-cors\<close> for images.
\<close>

definition ImageContext :: "(string \<Rightarrow> string \<Rightarrow> string) \<Rightarrow> string \<Rightarrow> string \<Rightarrow> RequestContext" where
  "ImageContext siteOf pageURL targetURL =
     \<lparr>ctxMode = ''no-cors'', ctxDest = ''image'', ctxSite = siteOf pageURL targetURL\<rparr>"

text \<open>
  Modelled from the spec: \<^verbatim>\<open>fingerprint.FontContext\<close>, whose source is missing; the
  table gives \<^verbatim>\<open>font\<close> and \<^verbatim>\<open>cors\<close> for fonts (the test \<^verbatim>\<open>TestFontContext\<close> expects
  the same).
\<close>

definition FontContext :: "(string \<Rightarrow> string \<Rightarrow> string) \<Rightarrow> string \<Rightarrow> string \<Rightarrow> RequestContext" where
  "FontContext siteOf pageURL targetURL =
     \<lparr>ctxMode = ''cors'', ctxDest = ''font'', ctxSite = siteOf pageURL targetURL\<rparr>"

text \<open>
  Modelled from the spec: \<^verbatim>\<open>fingerprint.GenerateSecFetchHeaders\<close>, whose source is
  missing. It turns the request context into the three header values.
\<close>

definition GenerateSecFetchHeaders :: "RequestContext \<Rightarrow> SecFetchHeaders" where
  "GenerateSecFetchHeaders reqCtx =
     \<lparr>Site = ctxSite reqCtx, Mode = ctxMode reqCtx, Dest = ctxDest reqCtx\<rparr>"

text \<open>
  \<^verbatim>\<open>buildSubresourceHeaders\<close> (warmup.go, lines 300-335). The result is the Go map
  literal of six keys, each bound to a one-element slice.
\<close>

definition buildSubresourceHeaders ::
  "(string \<Rightarrow> string \<Rightarrow> string) \<Rightarrow> resourceType \<Rightarrow> string \<Rightarrow> string \<Rightarrow> (string \<rightharpoonup> string list)" where
  "buildSubresourceHeaders siteOf t pageURL targetURL =
     (let (reqCtx, accept, priority) =
        (case t of
           resourceCSS \<Rightarrow> (StyleContext siteOf pageURL targetURL, ''text/css,*/*;q=0.1'', ''u=0, i'')
         | resourceJS \<Rightarrow> (ScriptContext siteOf pageURL targetURL, ''*/*'', ''u=1'')
         | resourceImage \<Rightarrow>
             (ImageContext siteOf pageURL targetURL,
              ''image/avif,image/webp,image/apng,image/svg+xml,image/*,*/*;q=0.8'', ''u=2'')
         | resourceFont \<Rightarrow> (FontContext siteOf pageURL targetURL, ''*/*'', ''u=3''));
        secFetch = GenerateSecFetchHeaders reqCtx
      in [''Accept'' \<mapsto> [accept],
          ''Sec-Fetch-Site'' \<mapsto> [Site secFetch],
          ''Sec-Fetch-Mode'' \<mapsto> [Mode secFetch],
          ''Sec-Fetch-Dest'' \<mapsto> [Dest secFetch],
          ''Referer'' \<mapsto> [pageURL],
          ''Priority'' \<mapsto> [priority]])"

section \<open>Fast C binding: the final URL field (bindings/clib/httpcloak\_fast.go)\<close>

text \<open>
  A Go string is a sequence of bytes, and \<^verbatim>\<open>C.char\<close> is an 8-bit value, so both are lists
  of 8-bit words here. \<^verbatim>\<open>FastResponseMeta\<close> is the C struct of the cgo preamble; its
  \<^verbatim>\<open>final_url\<close> is a \<^verbatim>\<open>char[2048]\<close>.
\<close>

type_synonym byte = "8 word"

record FastResponseMeta =
  status_code :: "32 word"
  body_len :: "32 word"
  headers_len :: "32 word"
  protocol :: "32 word"
  final_url :: "byte list"

text \<open>The fields of \<^verbatim>\<open>httpcloak.Response\<close> that the fast path reads.\<close>

record Response =
  StatusCode :: int
  Protocol :: string
  FinalURL :: "byte list"
  Headers :: "(string \<times> string list) list"

definition protocolToInt :: "string \<Rightarrow> 32 word" where
  "protocolToInt p =
     (if p = ''h1'' \<or> p = ''http/1.1'' \<or> p = ''HTTP/1.1'' then 1
      else if p = ''h2'' \<or> p = ''http/2'' \<or> p = ''HTTP/2'' then 2
      else if p = ''h3'' \<or> p = ''http/3'' \<or> p = ''HTTP/3'' then 3
      else 2)"

text \<open>
  The copy loop \<^verbatim>\<open>for i := 0; i < len(finalURLBytes); i++ { meta.final_url[i] = ... }\<close>,
  started at index \<open>i\<close>.
\<close>

function copy_final_url :: "byte list \<Rightarrow> byte list \<Rightarrow> nat \<Rightarrow> byte list" where
  "copy_final_url dst finalURLBytes i =
     (if i < length finalURLBytes
      then copy_final_url (dst[i := finalURLBytes ! i]) finalURLBytes (Suc i)
      else dst)"
  by pat_completeness auto
termination
  by (relation "measure (\<lambda>(dst, src, i). length src - i)") auto

declare copy_final_url.simps [simp del]

text \<open>
  Lines 184-192 of \<^verbatim>\<open>httpcloak_get_fast_finish\<close> and, word for word, lines 264-273 of
  \<^verbatim>\<open>httpcloak_get_fast\<close>: the array \<open>buf\<close> is the field as \<^verbatim>\<open>C.malloc\<close> left it.
\<close>

definition set_final_url :: "byte list \<Rightarrow> byte list \<Rightarrow> byte list" where
  "set_final_url buf finalURLBytes =
     (if length finalURLBytes < 2047
      then (copy_final_url buf finalURLBytes 0)[length finalURLBytes := 0]
      else buf[0 := 0])"

text \<open>
  The metadata that \<^verbatim>\<open>httpcloak_get_fast_finish\<close> fills into the freshly allocated
  struct \<open>meta\<close> (lines 176-199). The Go \<^verbatim>\<open>int\<close> values are cut to \<^verbatim>\<open>int32\<close>.
\<close>

definition httpcloak_get_fast_finish :: "FastResponseMeta \<Rightarrow> Response \<Rightarrow> byte list \<Rightarrow> FastResponseMeta" where
  "httpcloak_get_fast_finish meta resp bodyBytes =
     meta\<lparr>status_code := word_of_int (StatusCode resp),
          body_len := word_of_nat (length bodyBytes),
          protocol := protocolToInt (Protocol resp),
          final_url := set_final_url (final_url meta) (FinalURL resp),
          headers_len := word_of_nat (sum_list (map (\<lambda>(k, vals). length vals) (Headers resp)))\<rparr>"

text \<open>
  \<^verbatim>\<open>httpcloak_get_fast\<close> (lines 256-280) repeats the same statements on the response
  that \<^verbatim>\<open>session.Do\<close> returned.
\<close>

definition httpcloak_get_fast :: "FastResponseMeta \<Rightarrow> Response \<Rightarrow> byte list \<Rightarrow> FastResponseMeta" where
  "httpcloak_get_fast meta resp bodyBytes =
     meta\<lparr>status_code := word_of_int (StatusCode resp),
          body_len := word_of_nat (length bodyBytes),
          protocol := protocolToInt (Protocol resp),
          final_url := set_final_url (final_url meta) (FinalURL resp),
          headers_len := word_of_nat (sum_list (map (\<lambda>(k, vals). length vals) (Headers resp)))\<rparr>"

text \<open>What a C caller reads from the field as a string: the bytes before the first NUL.\<close>

definition c_string :: "byte list \<Rightarrow> byte list" where
  "c_string buf = takeWhile (\<lambda>b. b \<noteq> 0) buf"

text \<open>Concrete values used to exercise the final URL copy.\<close>

definition meta0 :: FastResponseMeta where
  "meta0 = \<lparr>status_code = 0, body_len = 0, headers_len = 0, protocol = 0,
             final_url = replicate 2048 170\<rparr>"

definition resp_short :: Response where
  "resp_short = \<lparr>StatusCode = 200, Protocol = ''h2'', FinalURL = [104, 116, 116, 112], Headers = []\<rparr>"

definition resp_long :: Response where
  "resp_long = \<lparr>StatusCode = 200, Protocol = ''h2'', FinalURL = replicate 2047 97, Headers = []\<rparr>"

section \<open>Cookie jar (package session, cookie jar source)\<close>

subsection \<open>The string functions of the Go library that the jar calls\<close>

text \<open>
  Go strings are byte sequences and so are HOL strings. \<^verbatim>\<open>strings.ToLower\<close> maps every
  Unicode upper-case letter of a UTF-8 string to lower case and is not modelled: every
  function that calls it takes it as the parameter \<open>toLower\<close>, and what is proved of such
  a function holds whatever \<open>toLower\<close> does. On a string of ASCII characters
  \<^verbatim>\<open>strings.ToLower\<close> turns the letters A to Z into a to z and leaves the rest; that
  function, \<open>ascii_ToLower\<close>, is what the concrete ASCII inputs below are run with.
\<close>

definition toLowerChar :: "char \<Rightarrow> char" where
  "toLowerChar c =
     (case map_of (zip ''ABCDEFGHIJKLMNOPQRSTUVWXYZ'' ''abcdefghijklmnopqrstuvwxyz'') c of
        None \<Rightarrow> c | Some l \<Rightarrow> l)"

definition ascii_ToLower :: "string \<Rightarrow> string" where
  "ascii_ToLower s = map toLowerChar s"

definition strings_HasPrefix :: "string \<Rightarrow> string \<Rightarrow> bool" where
  "strings_HasPrefix s pre = (length pre \<le> length s \<and> take (length pre) s = pre)"

definition strings_HasSuffix :: "string \<Rightarrow> string \<Rightarrow> bool" where
  "strings_HasSuffix s suf = (length suf \<le> length s \<and> drop (length s - length suf) s = suf)"

definition strings_TrimPrefix :: "string \<Rightarrow> string \<Rightarrow> string" where
  "strings_TrimPrefix s pre = (if strings_HasPrefix s pre then drop (length pre) s else s)"

text \<open>\<^verbatim>\<open>strings.Index\<close> and \<^verbatim>\<open>strings.LastIndex\<close>: the first and the last position at which
  \<open>substr\<close> occurs, or \<open>-1\<close>.\<close>

definition strings_Index :: "string \<Rightarrow> string \<Rightarrow> int" where
  "strings_Index s substr =
     (case List.find (\<lambda>i. strings_HasPrefix (drop i s) substr) [0..<Suc (length s)] of
        None \<Rightarrow> -1 | Some i \<Rightarrow> int i)"

definition strings_LastIndex :: "string \<Rightarrow> string \<Rightarrow> int" where
  "strings_LastIndex s substr =
     (case List.find (\<lambda>i. strings_HasPrefix (drop i s) substr) (rev [0..<Suc (length s)]) of
        None \<Rightarrow> -1 | Some i \<Rightarrow> int i)"

definition strings_Contains :: "string \<Rightarrow> string \<Rightarrow> bool" where
  "strings_Contains s substr = (0 \<le> strings_Index s substr)"

text \<open>\<^verbatim>\<open>strings.Join\<close>.\<close>

fun strings_Join :: "string list \<Rightarrow> string \<Rightarrow> string" where
  "strings_Join [] sep = []"
| "strings_Join [x] sep = x"
| "strings_Join (x # y # ys) sep = x @ sep @ strings_Join (y # ys) sep"

subsection \<open>Cookies and the jar\<close>

text \<open>
  \<^verbatim>\<open>CookieData\<close>. A \<^verbatim>\<open>time.Time\<close> is an instant on the integer time line (nanoseconds),
  \<^verbatim>\<open>*time.Time\<close> an optional one; \<^verbatim>\<open>Before\<close> is \<open><\<close>.
\<close>

record CookieData =
  Name :: string
  Value :: string
  Domain :: string
  HostOnly :: bool
  Path :: string
  Expires :: "int option"
  MaxAge :: int
  Secure :: bool
  HttpOnly :: bool
  SameSite :: string
  CreatedAt :: int

text \<open>
  \<^verbatim>\<open>CookieJar.cookies\<close>, a \<^verbatim>\<open>map[string]map[string]*CookieData\<close>: first key the domain,
  second key \<^verbatim>\<open>cookieKey(path, name)\<close>. A Go map is an association list here: a lookup
  is \<open>map_of\<close>, an assignment \<open>AList.update\<close>, and \<^verbatim>\<open>range\<close> visits the entries in the
  order of the list, which stands for the order the runtime happens to choose.
\<close>

type_synonym CookieJar = "(string \<times> (string \<times> CookieData) list) list"

definition NewCookieJar :: CookieJar where
  "NewCookieJar = []"

definition cookieKey :: "string \<Rightarrow> string \<Rightarrow> string" where
  "cookieKey path name = path @ [CHR 0x00] @ name"

text \<open>The cookie stored under a domain and a key, if any.\<close>

definition jar_lookup :: "CookieJar \<Rightarrow> string \<Rightarrow> string \<Rightarrow> CookieData option" where
  "jar_lookup j domain key = (case map_of j domain of None \<Rightarrow> None | Some m \<Rightarrow> map_of m key)"

text \<open>
  The host normalisation at the head of \<^verbatim>\<open>Set\<close> (lines 138-144) and of \<^verbatim>\<open>Get\<close>
  (lines 213-218): lower case, and the port cut off unless the last colon lies inside
  the brackets of an IPv6 literal.
\<close>

definition normalizeHost :: "(string \<Rightarrow> string) \<Rightarrow> string \<Rightarrow> string" where
  "normalizeHost toLower requestHost0 =
     (let requestHost = toLower requestHost0;
          idx = strings_LastIndex requestHost '':''
      in if idx \<noteq> -1
         then (if \<not> strings_Contains requestHost '']'' \<or> idx > strings_Index requestHost '']''
               then take (nat idx) requestHost else requestHost)
         else requestHost)"

definition domainMatchesHost :: "string \<Rightarrow> string \<Rightarrow> bool" where
  "domainMatchesHost cookieDomain requestHost =
     (if cookieDomain = [] then True
      else if cookieDomain = requestHost then True
      else if strings_HasPrefix cookieDomain ''.''
           then (let domainWithoutDot = drop 1 cookieDomain
                 in if requestHost = domainWithoutDot then True
                    else if strings_HasSuffix requestHost cookieDomain then True
                    else False)
           else False)"

definition isDomainMatch :: "string \<Rightarrow> string \<Rightarrow> bool" where
  "isDomainMatch host domain =
     (if host = domain then True
      else if strings_HasSuffix host (''.'' @ domain) then True
      else False)"

definition isPathMatch :: "string \<Rightarrow> string \<Rightarrow> bool" where
  "isPathMatch requestPath cookiePath =
     (if requestPath = cookiePath then True
      else if strings_HasPrefix requestPath cookiePath
           then (if strings_HasSuffix cookiePath ''/'' then True
                 else if length requestPath > length cookiePath
                         \<and> requestPath ! length cookiePath = CHR ''/'' then True
                 else False)
           else False)"

text \<open>
  \<^verbatim>\<open>CookieJar.Set\<close> (lines 133-202). \<open>now\<close> is the reading of \<^verbatim>\<open>time.Now()\<close>. The two
  \<^verbatim>\<open>return\<close> statements that reject the cookie give the jar back as it was.
\<close>

definition Set ::
  "(string \<Rightarrow> string) \<Rightarrow> CookieJar \<Rightarrow> string \<Rightarrow> CookieData \<Rightarrow> bool \<Rightarrow> int \<Rightarrow> CookieJar" where
  "Set toLower j requestHost0 cookie requestSecure now =
     (let requestHost = normalizeHost toLower requestHost0;
          effective =
            (if Domain cookie = [] then Some (requestHost, True)
             else (let domain = toLower (Domain cookie);
                       domainWithoutDot = strings_TrimPrefix domain ''.''
                   in if \<not> isDomainMatch requestHost domainWithoutDot then None
                      else Some (''.'' @ domainWithoutDot, False)))
      in case effective of
           None \<Rightarrow> j
         | Some (domain, hostOnly) \<Rightarrow>
             if Secure cookie \<and> \<not> requestSecure then j
             else (let path = (if Path cookie = [] \<or> hd (Path cookie) \<noteq> CHR ''/''
                               then ''/'' else Path cookie);
                       stored = \<lparr>Name = Name cookie, Value = Value cookie, Domain = domain,
                                 HostOnly = hostOnly, Path = path, Expires = Expires cookie,
                                 MaxAge = MaxAge cookie, Secure = Secure cookie,
                                 HttpOnly = HttpOnly cookie, SameSite = SameSite cookie,
                                 CreatedAt = now\<rparr>;
                       domainCookies = (case map_of j domain of None \<Rightarrow> [] | Some m \<Rightarrow> m)
                   in AList.update domain
                        (AList.update (cookieKey path (Name cookie)) stored domainCookies) j))"

text \<open>
  The order function handed to \<^verbatim>\<open>sort.Slice\<close> in \<^verbatim>\<open>Get\<close>: longer path first, then older
  creation time first.
\<close>

definition cookie_less :: "CookieData \<Rightarrow> CookieData \<Rightarrow> bool" where
  "cookie_less a b =
     (if length (Path a) \<noteq> length (Path b) then length (Path a) > length (Path b)
      else CreatedAt a < CreatedAt b)"

text \<open>
  \<^verbatim>\<open>sort.Slice\<close> of the Go library, as an insertion sort. The library promises a
  permutation ordered by the function \<open>lt\<close> it is given and nothing about the order of
  elements that \<open>lt\<close> does not separate; this model happens to keep their order.
\<close>

fun insert_by :: "('a \<Rightarrow> 'a \<Rightarrow> bool) \<Rightarrow> 'a \<Rightarrow> 'a list \<Rightarrow> 'a list" where
  "insert_by lt x [] = [x]"
| "insert_by lt x (y # ys) = (if lt y x then y # insert_by lt x ys else x # y # ys)"

definition sort_Slice :: "('a \<Rightarrow> 'a \<Rightarrow> bool) \<Rightarrow> 'a list \<Rightarrow> 'a list" where
  "sort_Slice lt xs = foldr (insert_by lt) xs []"

text \<open>The four checks in the inner loop of \<^verbatim>\<open>Get\<close> (lines 235-255); each failing check
  is a \<^verbatim>\<open>continue\<close>.\<close>

definition cookie_sent :: "string \<Rightarrow> string \<Rightarrow> string \<Rightarrow> bool \<Rightarrow> int \<Rightarrow> CookieData \<Rightarrow> bool" where
  "cookie_sent domain requestHost requestPath requestSecure now cookie =
     (if HostOnly cookie \<and> domain \<noteq> requestHost then False
      else if \<not> isPathMatch requestPath (Path cookie) then False
      else if Secure cookie \<and> \<not> requestSecure then False
      else if (case Expires cookie of None \<Rightarrow> False | Some e \<Rightarrow> e < now) then False
      else True)"

text \<open>\<^verbatim>\<open>CookieJar.Get\<close> (lines 208-268): the two nested \<^verbatim>\<open>range\<close> loops collect the
  matches, then the slice is sorted.\<close>

definition Get ::
  "(string \<Rightarrow> string) \<Rightarrow> CookieJar \<Rightarrow> string \<Rightarrow> string \<Rightarrow> bool \<Rightarrow> int \<Rightarrow> CookieData list" where
  "Get toLower j requestHost0 requestPath0 requestSecure now =
     (let requestHost = normalizeHost toLower requestHost0;
          requestPath = (if requestPath0 = [] then ''/'' else requestPath0);
          matches =
            concat (map (\<lambda>(domain, domainCookies).
                      if \<not> domainMatchesHost domain requestHost then []
                      else filter (cookie_sent domain requestHost requestPath requestSecure now)
                             (map snd domainCookies)) j)
      in sort_Slice cookie_less matches)"

text \<open>\<^verbatim>\<open>CookieJar.SetSimple\<close> (lines 286-304); the fields the literal leaves out have
  their zero values.\<close>

definition SetSimple :: "CookieJar \<Rightarrow> string \<Rightarrow> string \<Rightarrow> int \<Rightarrow> CookieJar" where
  "SetSimple j name val now =
     (let domain = [];
          domainCookies = (case map_of j domain of None \<Rightarrow> [] | Some m \<Rightarrow> m)
      in AList.update domain
           (AList.update (cookieKey ''/'' name)
              \<lparr>Name = name, Value = val, Domain = domain, HostOnly = False, Path = ''/'',
               Expires = None, MaxAge = 0, Secure = False, HttpOnly = False, SameSite = [],
               CreatedAt = now\<rparr> domainCookies) j)"

text \<open>\<^verbatim>\<open>CookieJar.BuildCookieHeader\<close> (lines 546-558).\<close>

definition BuildCookieHeader ::
  "(string \<Rightarrow> string) \<Rightarrow> CookieJar \<Rightarrow> string \<Rightarrow> string \<Rightarrow> bool \<Rightarrow> int \<Rightarrow> string" where
  "BuildCookieHeader toLower j requestHost requestPath requestSecure now =
     (let cookies = Get toLower j requestHost requestPath requestSecure now
      in if length cookies = 0 then []
         else strings_Join (map (\<lambda>c. Name c @ ''='' @ Value c) cookies) ''; '')"

subsection \<open>The matching rules in the words of the specification\<close>

text \<open>
  Path match: the request path equals the cookie path, or the cookie path is a prefix of
  the request path and either the character of the request path at the boundary is a
  slash or the cookie path ends in a slash.
\<close>

definition path_match_spec :: "string \<Rightarrow> string \<Rightarrow> bool" where
  "path_match_spec requestPath cookiePath =
     (requestPath = cookiePath
      \<or> (prefix cookiePath requestPath
         \<and> ((length cookiePath < length requestPath \<and> requestPath ! length cookiePath = CHR ''/'')
            \<or> (cookiePath \<noteq> [] \<and> last cookiePath = CHR ''/''))))"

text \<open>
  Domain match: a cookie stored under its host matches that host; a domain cookie
  (leading dot) matches the domain itself and any subdomain.
\<close>

definition domain_match_spec :: "string \<Rightarrow> string \<Rightarrow> bool" where
  "domain_match_spec cookieDomain requestHost =
     (requestHost = cookieDomain
      \<or> (\<exists>d. cookieDomain = ''.'' @ d \<and> (requestHost = d \<or> suffix (''.'' @ d) requestHost)))"

text \<open>The order of RFC 6265, section 5.4: longer paths first, and among paths of equal
  length the earlier creation time first.\<close>

definition cookie_le :: "CookieData \<Rightarrow> CookieData \<Rightarrow> bool" where
  "cookie_le a b \<longleftrightarrow>
     length (Path a) > length (Path b)
     \<or> (length (Path a) = length (Path b) \<and> CreatedAt a \<le> CreatedAt b)"

text \<open>A jar with one secure domain cookie, to exercise the rules.\<close>

definition cookie1 :: CookieData where
  "cookie1 = \<lparr>Name = ''sid'', Value = ''abc'', Domain = ''.example.test'', HostOnly = False,
              Path = ''/'', Expires = Some 100, MaxAge = 0, Secure = True, HttpOnly = False,
              SameSite = [], CreatedAt = 5\<rparr>"

definition jar1 :: CookieJar where
  "jar1 = [(''.example.test'', [(cookieKey ''/'' ''sid'', cookie1)])]"

text \<open>A Set-Cookie with a Domain attribute in mixed case and no path.\<close>

definition cookie2 :: CookieData where
  "cookie2 = \<lparr>Name = ''sid'', Value = ''abc'', Domain = ''Example.test'', HostOnly = False,
              Path = [], Expires = None, MaxAge = 0, Secure = False, HttpOnly = False,
              SameSite = [], CreatedAt = 0\<rparr>"

section \<open>Persistable TLS session cache (transport/tls\_cache.go)\<close>

text \<open>
  \<^verbatim>\<open>TLSSessionMaxAge = 24 * time.Hour\<close> in nanoseconds, the unit of \<^verbatim>\<open>time.Duration\<close>, and
  \<^verbatim>\<open>TLSSessionCacheMaxSize\<close>.
\<close>

definition TLSSessionMaxAge :: int where
  "TLSSessionMaxAge = 24 * (60 * 60 * 1000000000)"

definition TLSSessionCacheMaxSize :: nat where
  "TLSSessionCacheMaxSize = 32"

text \<open>
  \<^verbatim>\<open>time.Since(t)\<close> is \<^verbatim>\<open>time.Now().Sub(t)\<close>; the library saturates the difference at the
  largest and smallest \<^verbatim>\<open>Duration\<close>, a 64-bit count of nanoseconds.
\<close>

definition time_Since :: "int \<Rightarrow> int \<Rightarrow> int" where
  "time_Since now t =
     (let d = now - t
      in if d > 2 ^ 63 - 1 then 2 ^ 63 - 1 else if d < - (2 ^ 63) then - (2 ^ 63) else d)"

text \<open>\<^verbatim>\<open>TLSSessionState\<close>, the serialised form of a session.\<close>

record TLSSessionState =
  tls_Ticket :: string
  tls_State :: string
  tls_CreatedAt :: int

text \<open>
  \<^verbatim>\<open>cachedSession\<close>. The type \<open>'cs\<close> stands for \<^verbatim>\<open>tls.ClientSessionState\<close>; the field is a
  pointer, and \<open>None\<close> is \<^verbatim>\<open>nil\<close>.
\<close>

record 'cs cachedSession =
  state :: "'cs option"
  createdAt :: int

text \<open>
  \<^verbatim>\<open>PersistableSessionCache\<close>: the map \<^verbatim>\<open>sessions\<close>, as an association list like the maps
  of the cookie jar, and the slice \<^verbatim>\<open>accessOrder\<close>, oldest key at the front.
\<close>

record 'cs PersistableSessionCache =
  sessions :: "(string \<times> 'cs cachedSession) list"
  accessOrder :: "string list"

text \<open>
  The functions of the TLS fork and of \<^verbatim>\<open>encoding/base64\<close> that \<^verbatim>\<open>Export\<close> and \<^verbatim>\<open>Import\<close>
  call. They are outside the repository, so the cache is modelled over any such library:
  an error return is \<open>None\<close>, and \<^verbatim>\<open>ResumptionState\<close> yields a ticket and a session state
  that may each be \<^verbatim>\<open>nil\<close>. The type \<open>'ss\<close> stands for \<^verbatim>\<open>tls.SessionState\<close>.
\<close>

record ('cs, 'ss) tls_library =
  ResumptionState :: "'cs \<Rightarrow> (string option \<times> 'ss option) option"
  Bytes :: "'ss \<Rightarrow> string option"
  EncodeToString :: "string \<Rightarrow> string"
  DecodeString :: "string \<Rightarrow> string option"
  ParseSessionState :: "string \<Rightarrow> 'ss option"
  NewResumptionState :: "string \<Rightarrow> 'ss \<Rightarrow> 'cs option"

definition NewPersistableSessionCache :: "'cs PersistableSessionCache" where
  "NewPersistableSessionCache = \<lparr>sessions = [], accessOrder = []\<rparr>"

text \<open>\<^verbatim>\<open>moveToEnd\<close>: the first occurrence of the key is taken out and the key appended;
  nothing happens when the key does not occur.\<close>

definition moveToEnd :: "'cs PersistableSessionCache \<Rightarrow> string \<Rightarrow> 'cs PersistableSessionCache" where
  "moveToEnd c key =
     (if key \<in> set (accessOrder c)
      then c\<lparr>accessOrder := remove1 key (accessOrder c) @ [key]\<rparr>
      else c)"

text \<open>\<^verbatim>\<open>Get\<close> of the cache (lines 47-57): the new cache, the state and the \<^verbatim>\<open>ok\<close> flag.\<close>

definition Cache_Get ::
  "'cs PersistableSessionCache \<Rightarrow> string \<Rightarrow> 'cs PersistableSessionCache \<times> 'cs option \<times> bool" where
  "Cache_Get c sessionKey =
     (case map_of (sessions c) sessionKey of
        Some cached \<Rightarrow> (moveToEnd c sessionKey, state cached, True)
      | None \<Rightarrow> (c, None, False))"

text \<open>\<^verbatim>\<open>Put\<close> (lines 71-99); \<open>now\<close> is the reading of \<^verbatim>\<open>time.Now()\<close>.\<close>

definition Cache_Put ::
  "'cs PersistableSessionCache \<Rightarrow> string \<Rightarrow> 'cs option \<Rightarrow> int \<Rightarrow> 'cs PersistableSessionCache" where
  "Cache_Put c sessionKey cs now =
     (if map_of (sessions c) sessionKey \<noteq> None
      then moveToEnd (c\<lparr>sessions := AList.update sessionKey \<lparr>state = cs, createdAt = now\<rparr> (sessions c)\<rparr>)
             sessionKey
      else (let c1 = (if length (sessions c) \<ge> TLSSessionCacheMaxSize \<and> length (accessOrder c) > 0
                      then c\<lparr>accessOrder := tl (accessOrder c),
                             sessions := AList.delete (hd (accessOrder c)) (sessions c)\<rparr>
                      else c)
            in c1\<lparr>sessions := AList.update sessionKey \<lparr>state = cs, createdAt = now\<rparr> (sessions c1),
                  accessOrder := accessOrder c1 @ [sessionKey]\<rparr>))"

text \<open>The body of the loop of \<^verbatim>\<open>Export\<close> (lines 110-134) for one cached session: the
  serialised session, or \<open>None\<close> where the source says \<^verbatim>\<open>continue\<close>.\<close>

definition export_session :: "('cs, 'ss) tls_library \<Rightarrow> 'cs cachedSession \<Rightarrow> TLSSessionState option" where
  "export_session lib cached =
     (case state cached of
        None \<Rightarrow> None
      | Some cs \<Rightarrow>
          (case ResumptionState lib cs of
             None \<Rightarrow> None
           | Some (ticket, st) \<Rightarrow>
               (case st of
                  None \<Rightarrow> None
                | Some st' \<Rightarrow>
                    (case ticket of
                       None \<Rightarrow> None
                     | Some ticket' \<Rightarrow>
                         (case Bytes lib st' of
                            None \<Rightarrow> None
                          | Some stateBytes \<Rightarrow>
                              Some \<lparr>tls_Ticket = EncodeToString lib ticket',
                                    tls_State = EncodeToString lib stateBytes,
                                    tls_CreatedAt = createdAt cached\<rparr>)))))"

text \<open>\<^verbatim>\<open>Export\<close> (lines 103-138).\<close>

definition Cache_Export ::
  "('cs, 'ss) tls_library \<Rightarrow> 'cs PersistableSessionCache \<Rightarrow> (string \<times> TLSSessionState) list" where
  "Cache_Export lib c =
     fold (\<lambda>(key, cached) result.
             case export_session lib cached of
               None \<Rightarrow> result
             | Some serialized \<Rightarrow> AList.update key serialized result)
          (sessions c) []"

text \<open>The body of the first loop of \<^verbatim>\<open>Import\<close> (lines 147-179) for one serialised session:
  the session to store, or \<open>None\<close> where the source says \<^verbatim>\<open>continue\<close>.\<close>

definition import_session ::
  "('cs, 'ss) tls_library \<Rightarrow> TLSSessionState \<Rightarrow> int \<Rightarrow> 'cs cachedSession option" where
  "import_session lib serialized now =
     (if time_Since now (tls_CreatedAt serialized) > TLSSessionMaxAge then None
      else (case DecodeString lib (tls_Ticket serialized) of
              None \<Rightarrow> None
            | Some ticket \<Rightarrow>
                (case DecodeString lib (tls_State serialized) of
                   None \<Rightarrow> None
                 | Some stateBytes \<Rightarrow>
                     (case ParseSessionState lib stateBytes of
                        None \<Rightarrow> None
                      | Some st \<Rightarrow>
                          (case NewResumptionState lib ticket st of
                             None \<Rightarrow> None
                           | Some clientState \<Rightarrow>
                               Some \<lparr>state = Some clientState,
                                     createdAt = tls_CreatedAt serialized\<rparr>)))))"

text \<open>The first loop of \<^verbatim>\<open>Import\<close>, over the entries of the given map.\<close>

definition import_sessions ::
  "('cs, 'ss) tls_library \<Rightarrow> 'cs PersistableSessionCache \<Rightarrow> (string \<times> TLSSessionState) list \<Rightarrow> int
     \<Rightarrow> 'cs PersistableSessionCache" where
  "import_sessions lib c ss now =
     fold (\<lambda>(key, serialized) c.
             case import_session lib serialized now of
               None \<Rightarrow> c
             | Some cached \<Rightarrow>
                 c\<lparr>sessions := AList.update key cached (sessions c),
                   accessOrder := accessOrder c @ [key]\<rparr>)
          ss c"

text \<open>The second loop of \<^verbatim>\<open>Import\<close> (lines 184-188), which enforces the size limit.\<close>

function enforce_max_size :: "'cs PersistableSessionCache \<Rightarrow> 'cs PersistableSessionCache" where
  "enforce_max_size c =
     (if length (sessions c) > TLSSessionCacheMaxSize \<and> length (accessOrder c) > 0
      then enforce_max_size
             (c\<lparr>accessOrder := tl (accessOrder c),
                sessions := AList.delete (hd (accessOrder c)) (sessions c)\<rparr>)
      else c)"
  by pat_completeness auto
termination
  by (relation "measure (\<lambda>c. length (accessOrder c))") auto

declare enforce_max_size.simps [simp del]

text \<open>\<^verbatim>\<open>Import\<close> (lines 142-191).\<close>

definition Cache_Import ::
  "('cs, 'ss) tls_library \<Rightarrow> 'cs PersistableSessionCache \<Rightarrow> (string \<times> TLSSessionState) list \<Rightarrow> int
     \<Rightarrow> 'cs PersistableSessionCache" where
  "Cache_Import lib c ss now = enforce_max_size (import_sessions lib c ss now)"

definition Cache_Clear :: "'cs PersistableSessionCache \<Rightarrow> 'cs PersistableSessionCache" where
  "Cache_Clear c = \<lparr>sessions = [], accessOrder = []\<rparr>"

definition Cache_Count :: "'cs PersistableSessionCache \<Rightarrow> nat" where
  "Cache_Count c = length (sessions c)"

text \<open>The operations on a cache, and a sequence of them run from left to right.\<close>

datatype 'cs cache_op =
    OpPut string "'cs option" int
  | OpImport "(string \<times> TLSSessionState) list" int
  | OpGet string
  | OpClear

fun apply_op :: "('cs, 'ss) tls_library \<Rightarrow> 'cs PersistableSessionCache \<Rightarrow> 'cs cache_op \<Rightarrow> 'cs PersistableSessionCache" where
  "apply_op lib c (OpPut key cs now) = Cache_Put c key cs now"
| "apply_op lib c (OpImport ss now) = Cache_Import lib c ss now"
| "apply_op lib c (OpGet key) = fst (Cache_Get c key)"
| "apply_op lib c OpClear = Cache_Clear c"

definition run_ops :: "('cs, 'ss) tls_library \<Rightarrow> 'cs cache_op list \<Rightarrow> 'cs PersistableSessionCache" where
  "run_ops lib ops = foldl (apply_op lib) NewPersistableSessionCache ops"

text \<open>
  A library in which every step succeeds, to run the cache on concrete input: a client
  session is its ticket and its state bytes, and the encodings are the identity.
\<close>

definition plain_library :: "(string \<times> string, string) tls_library" where
  "plain_library =
     \<lparr>ResumptionState = (\<lambda>(ticket, st). Some (Some ticket, Some st)),
      Bytes = Some, EncodeToString = (\<lambda>b. b), DecodeString = Some,
      ParseSessionState = Some, NewResumptionState = (\<lambda>ticket st. Some (ticket, st))\<rparr>"

definition session0 :: TLSSessionState where
  "session0 = \<lparr>tls_Ticket = ''t'', tls_State = ''s'', tls_CreatedAt = 0\<rparr>"

text \<open>The session keys \<^verbatim>\<open>k\<close>, \<^verbatim>\<open>kx\<close>, \<^verbatim>\<open>kxx\<close>, ...\<close>

definition nth_key :: "nat \<Rightarrow> string" where
  "nth_key i = CHR ''k'' # replicate i CHR ''x''"

text \<open>Concrete snapshots and a concrete run of the cache.\<close>

definition many_sessions :: "(string \<times> TLSSessionState) list" where
  "many_sessions = map (\<lambda>i. (nth_key i, session0)) [0..<33]"

definition session1 :: TLSSessionState where
  "session1 = \<lparr>tls_Ticket = ''t1'', tls_State = ''s1'', tls_CreatedAt = 80000000000000\<rparr>"

definition two_sessions :: "(string \<times> TLSSessionState) list" where
  "two_sessions = [(''h2:old.test:443'', session0), (''h2:new.test:443'', session1)]"

definition overflow_ops :: "(string \<times> string) cache_op list" where
  "overflow_ops =
     [OpImport [(''a'', session0)] 0, OpImport [(''a'', session0)] 0]
     @ map (\<lambda>i. OpPut (nth_key i) None 0) [0..<33]"

section \<open>Warmup planner: discovery of subresources (session/warmup.go)\<close>

text \<open>
  The HTML tokenizer of \<^verbatim>\<open>golang.org/x/net/html\<close> is outside the repository. What
  \<^verbatim>\<open>parseSubresources\<close> sees of it is a sequence of tokens, each with its type, its tag
  name and the attributes that successive calls of \<^verbatim>\<open>TagAttr\<close> return; the sequence ends
  with \<^verbatim>\<open>ErrorToken\<close> at the end of the input.
\<close>

datatype TokenType =
  ErrorToken | TextToken | StartTagToken | EndTagToken | SelfClosingTagToken
  | CommentToken | DoctypeToken

record Token =
  tok_type :: TokenType
  tok_name :: string
  tok_attrs :: "(string \<times> string) list"

definition maxSubresources :: nat where
  "maxSubresources = 50"

text \<open>\<^verbatim>\<open>parseLinkAttrs\<close>: the loop over all attributes of the tag; a later attribute of the
  same name overwrites an earlier one.\<close>

definition parseLinkAttrs ::
  "(string \<Rightarrow> string) \<Rightarrow> (string \<times> string) list \<Rightarrow> string \<times> string \<times> string" where
  "parseLinkAttrs toLower attrs =
     fold (\<lambda>(k, v) (href, rel, as).
             if k = ''href'' then (v, rel, as)
             else if k = ''rel'' then (href, toLower v, as)
             else if k = ''as'' then (href, rel, toLower v)
             else (href, rel, as))
          attrs ([], [], [])"

text \<open>\<^verbatim>\<open>getAttr\<close>: the value of the first attribute with the given name, or the empty
  string.\<close>

definition getAttr :: "(string \<times> string) list \<Rightarrow> string \<Rightarrow> string" where
  "getAttr attrs name =
     (case List.find (\<lambda>(k, v). k = name) attrs of None \<Rightarrow> [] | Some (k, v) \<Rightarrow> v)"

text \<open>The two nested switches on \<^verbatim>\<open>rel\<close> and \<^verbatim>\<open>as\<close> in the \<^verbatim>\<open>link\<close> case (lines 137-158):
  the resource type when \<^verbatim>\<open>matched\<close> is true.\<close>

definition link_type :: "string \<Rightarrow> string \<Rightarrow> resourceType option" where
  "link_type rel as =
     (if rel = ''stylesheet'' then Some resourceCSS
      else if rel = ''icon'' then Some resourceImage
      else if rel = ''preload''
           then (if as = ''style'' then Some resourceCSS
                 else if as = ''script'' then Some resourceJS
                 else if as = ''image'' then Some resourceImage
                 else if as = ''font'' then Some resourceFont
                 else None)
      else None)"

text \<open>The three lines that every case repeats: record the resolved URL unless it was
  seen before. \<^verbatim>\<open>seen\<close> is a \<^verbatim>\<open>map[string]bool\<close>, read only by key.\<close>

definition add_resource ::
  "(string \<Rightarrow> bool) \<Rightarrow> subresource list \<Rightarrow> string \<Rightarrow> resourceType
     \<Rightarrow> (string \<Rightarrow> bool) \<times> subresource list" where
  "add_resource seen resources resolved t =
     (if \<not> seen resolved
      then (seen(resolved := True), resources @ [\<lparr>res_url = resolved, res_typ = t\<rparr>])
      else (seen, resources))"

text \<open>The switch on the tag name (lines 129-186) for a tag that has attributes and, if it
  is a \<^verbatim>\<open>link\<close>, a \<^verbatim>\<open>href\<close>. \<open>resolveURL\<close> is the helper of the package that resolves a
  reference against the base URL; its source is not at hand and it is a parameter.\<close>

definition tag_step ::
  "(string \<Rightarrow> string) \<Rightarrow> (string \<Rightarrow> string \<Rightarrow> string) \<Rightarrow> string \<Rightarrow> Token \<Rightarrow> (string \<Rightarrow> bool) \<Rightarrow> subresource list
     \<Rightarrow> (string \<Rightarrow> bool) \<times> subresource list" where
  "tag_step toLower resolveURL baseURL t seen resources =
     (if tok_name t = ''link''
      then (case parseLinkAttrs toLower (tok_attrs t) of
              (href, rel, as) \<Rightarrow>
                (case link_type rel as of
                   None \<Rightarrow> (seen, resources)
                 | Some ty \<Rightarrow> add_resource seen resources (resolveURL baseURL href) ty))
      else if tok_name t = ''script''
      then (let src = getAttr (tok_attrs t) ''src''
            in if src \<noteq> [] then add_resource seen resources (resolveURL baseURL src) resourceJS
               else (seen, resources))
      else if tok_name t = ''img''
      then (let src = getAttr (tok_attrs t) ''src''
            in if src \<noteq> [] then add_resource seen resources (resolveURL baseURL src) resourceImage
               else (seen, resources))
      else (seen, resources))"

text \<open>The loop of \<^verbatim>\<open>parseSubresources\<close> (lines 114-191) over the tokens that are left.
  The three \<^verbatim>\<open>continue\<close> statements go to the next token without the check of the cap;
  the \<^verbatim>\<open>break\<close> statements return what has been collected.\<close>

fun parse_tokens ::
  "(string \<Rightarrow> string) \<Rightarrow> (string \<Rightarrow> string \<Rightarrow> string) \<Rightarrow> string \<Rightarrow> Token list \<Rightarrow> (string \<Rightarrow> bool) \<Rightarrow> subresource list
     \<Rightarrow> subresource list" where
  "parse_tokens toLower resolveURL baseURL [] seen resources = resources"
| "parse_tokens toLower resolveURL baseURL (t # ts) seen resources =
     (if tok_type t = ErrorToken then resources
      else if tok_type t \<noteq> StartTagToken \<and> tok_type t \<noteq> SelfClosingTagToken
      then parse_tokens toLower resolveURL baseURL ts seen resources
      else if tok_attrs t = [] then parse_tokens toLower resolveURL baseURL ts seen resources
      else if tok_name t = ''link'' \<and> fst (parseLinkAttrs toLower (tok_attrs t)) = []
      then parse_tokens toLower resolveURL baseURL ts seen resources
      else if length (snd (tag_step toLower resolveURL baseURL t seen resources)) \<ge> maxSubresources
      then snd (tag_step toLower resolveURL baseURL t seen resources)
      else parse_tokens toLower resolveURL baseURL ts
             (fst (tag_step toLower resolveURL baseURL t seen resources))
             (snd (tag_step toLower resolveURL baseURL t seen resources)))"

text \<open>\<^verbatim>\<open>parseSubresources\<close>, over any tokenizer and any URL resolution.\<close>

definition parseSubresources ::
  "(string \<Rightarrow> string) \<Rightarrow> (string \<Rightarrow> Token list) \<Rightarrow> (string \<Rightarrow> string \<Rightarrow> string) \<Rightarrow> string \<Rightarrow> string \<Rightarrow> subresource list" where
  "parseSubresources toLower tokenize resolveURL body baseURL =
     parse_tokens toLower resolveURL baseURL (tokenize body) (\<lambda>u. False) []"

text \<open>\<^verbatim>\<open>groupByPriority\<close> (lines 231-243): one pass that appends each resource to its
  batch.\<close>

definition groupByPriority ::
  "subresource list \<Rightarrow> subresource list \<times> subresource list \<times> subresource list" where
  "groupByPriority resources =
     fold (\<lambda>r (cssAndFonts, scripts, images).
             case res_typ r of
               resourceCSS \<Rightarrow> (cssAndFonts @ [r], scripts, images)
             | resourceFont \<Rightarrow> (cssAndFonts @ [r], scripts, images)
             | resourceJS \<Rightarrow> (cssAndFonts, scripts @ [r], images)
             | resourceImage \<Rightarrow> (cssAndFonts, scripts, images @ [r]))
          resources ([], [], [])"

text \<open>The tokens of the page of the test \<^verbatim>\<open>TestParseSubresources_Dedup\<close>, and a resolution
  that prefixes the base URL.\<close>

definition dedup_tokens :: "Token list" where
  "dedup_tokens =
     [\<lparr>tok_type = StartTagToken, tok_name = ''html'', tok_attrs = []\<rparr>,
      \<lparr>tok_type = StartTagToken, tok_name = ''link'',
        tok_attrs = [(''rel'', ''stylesheet''), (''href'', ''/css/main.css'')]\<rparr>,
      \<lparr>tok_type = StartTagToken, tok_name = ''link'',
        tok_attrs = [(''rel'', ''stylesheet''), (''href'', ''/css/main.css'')]\<rparr>,
      \<lparr>tok_type = StartTagToken, tok_name = ''img'', tok_attrs = [(''src'', ''/logo.png'')]\<rparr>,
      \<lparr>tok_type = StartTagToken, tok_name = ''script'', tok_attrs = [(''src'', ''/app.js'')]\<rparr>,
      \<lparr>tok_type = StartTagToken, tok_name = ''img'', tok_attrs = [(''src'', ''/logo.png'')]\<rparr>,
      \<lparr>tok_type = EndTagToken, tok_name = ''html'', tok_attrs = []\<rparr>,
      \<lparr>tok_type = ErrorToken, tok_name = [], tok_attrs = []\<rparr>]"

definition prefix_resolve :: "string \<Rightarrow> string \<Rightarrow> string" where
  "prefix_resolve baseURL ref = baseURL @ ref"

text \<open>The invariant of the loop of \<^verbatim>\<open>parseSubresources\<close>: the URLs collected so far are
  pairwise distinct and all marked in \<^verbatim>\<open>seen\<close>.\<close>

definition parse_inv :: "(string \<Rightarrow> bool) \<Rightarrow> subresource list \<Rightarrow> bool" where
  "parse_inv seen resources \<longleftrightarrow>
     distinct (map res_url resources) \<and> (\<forall>r \<in> set resources. seen (res_url r))"

section \<open>Session snapshots: export and import of the cookie jar\<close>

text \<open>\<^verbatim>\<open>CookieState\<close> (session/state.go), the serialised cookie. It has no field for
  \<^verbatim>\<open>HostOnly\<close>.\<close>

record CookieState =
  cs_Name :: string
  cs_Value :: string
  cs_Domain :: string
  cs_Path :: string
  cs_Expires :: "int option"
  cs_MaxAge :: int
  cs_Secure :: bool
  cs_HttpOnly :: bool
  cs_SameSite :: string
  cs_CreatedAt :: "int option"

text \<open>The test \<^verbatim>\<open>c.Expires != nil && c.Expires.Before(now)\<close>.\<close>

definition expired :: "int option \<Rightarrow> int \<Rightarrow> bool" where
  "expired expires now = (case expires of None \<Rightarrow> False | Some e \<Rightarrow> e < now)"

text \<open>The struct literal in the loop of \<^verbatim>\<open>CookieJar.Export\<close> (lines 359-371).\<close>

definition export_cookie :: "CookieData \<Rightarrow> CookieState" where
  "export_cookie c =
     \<lparr>cs_Name = Name c, cs_Value = Value c, cs_Domain = Domain c, cs_Path = Path c,
      cs_Expires = Expires c, cs_MaxAge = MaxAge c, cs_Secure = Secure c,
      cs_HttpOnly = HttpOnly c, cs_SameSite = SameSite c, cs_CreatedAt = Some (CreatedAt c)\<rparr>"

text \<open>\<^verbatim>\<open>CookieJar.Export\<close> (lines 344-379).\<close>

definition Jar_Export :: "CookieJar \<Rightarrow> int \<Rightarrow> (string \<times> CookieState list) list" where
  "Jar_Export j now =
     fold (\<lambda>(domain, domainCookies) result.
             let cookies = map export_cookie
                             (filter (\<lambda>c. \<not> expired (Expires c) now) (map snd domainCookies))
             in if length cookies > 0 then AList.update domain cookies result else result)
          j []"

text \<open>The body of the inner loop of \<^verbatim>\<open>CookieJar.Import\<close> (lines 399-425) for a cookie
  that is not expired: the key and the cookie stored under it.\<close>

definition import_cookie :: "CookieState \<Rightarrow> int \<Rightarrow> string \<times> CookieData" where
  "import_cookie c now =
     (let path = (if cs_Path c = [] then ''/'' else cs_Path c);
          hostOnly = (\<not> strings_HasPrefix (cs_Domain c) ''.'');
          createdAt = (case cs_CreatedAt c of None \<Rightarrow> now | Some t \<Rightarrow> t)
      in (cookieKey path (cs_Name c),
          \<lparr>Name = cs_Name c, Value = cs_Value c, Domain = cs_Domain c, HostOnly = hostOnly,
           Path = path, Expires = cs_Expires c, MaxAge = cs_MaxAge c, Secure = cs_Secure c,
           HttpOnly = cs_HttpOnly c, SameSite = cs_SameSite c, CreatedAt = createdAt\<rparr>))"

text \<open>The inner loop of \<^verbatim>\<open>CookieJar.Import\<close> over the cookies of one domain, writing
  into the map \<open>m\<close> of that domain.\<close>

definition import_domain ::
  "(string \<times> CookieData) list \<Rightarrow> CookieState list \<Rightarrow> int \<Rightarrow> (string \<times> CookieData) list" where
  "import_domain m domainCookies now =
     fold (\<lambda>c m. if expired (cs_Expires c) now then m
                  else (case import_cookie c now of (key, stored) \<Rightarrow> AList.update key stored m))
          domainCookies m"

text \<open>\<^verbatim>\<open>CookieJar.Import\<close> (lines 382-428): the map of the domain is created when it is
  missing, also when every cookie of the domain is then skipped.\<close>

definition Jar_Import :: "CookieJar \<Rightarrow> (string \<times> CookieState list) list \<Rightarrow> int \<Rightarrow> CookieJar" where
  "Jar_Import j cookies now =
     fold (\<lambda>(domain, domainCookies) j.
             AList.update domain
               (import_domain (case map_of j domain of None \<Rightarrow> [] | Some m \<Rightarrow> m) domainCookies now) j)
          cookies j"

subsection \<open>The states that a snapshot can carry\<close>

text \<open>
  A jar as \<^verbatim>\<open>Set\<close> builds it: each key once, every cookie under the key of its path and
  name, no empty path, and \<^verbatim>\<open>HostOnly\<close> set exactly on the cookies whose domain has no
  leading dot. The snapshot does not record \<^verbatim>\<open>HostOnly\<close>; \<^verbatim>\<open>Import\<close> derives it from the
  leading dot.
\<close>

definition jar_scoped :: "CookieJar \<Rightarrow> bool" where
  "jar_scoped j \<longleftrightarrow>
     distinct (map fst j)
     \<and> (\<forall>(domain, m) \<in> set j.
          distinct (map fst m)
          \<and> (\<forall>(key, c) \<in> set m.
                key = cookieKey (Path c) (Name c) \<and> Path c \<noteq> []
                \<and> HostOnly c = (\<not> strings_HasPrefix (Domain c) ''.'')))"

text \<open>
  The laws of the libraries that reading a session back relies on, for one client
  session: when the session yields a ticket and a state and the state serialises, then
  base64 decoding undoes the encoding of the ticket and of the state bytes, parsing
  undoes the serialisation of the state, and \<^verbatim>\<open>NewResumptionState\<close> rebuilds the session
  from its ticket and state.
\<close>

definition library_reads_back :: "('cs, 'ss) tls_library \<Rightarrow> 'cs \<Rightarrow> bool" where
  "library_reads_back lib cs \<longleftrightarrow>
     (\<forall>ticket st stateBytes.
        ResumptionState lib cs = Some (Some ticket, Some st) \<and> Bytes lib st = Some stateBytes
        \<longrightarrow> DecodeString lib (EncodeToString lib ticket) = Some ticket
            \<and> DecodeString lib (EncodeToString lib stateBytes) = Some stateBytes
            \<and> ParseSessionState lib stateBytes = Some st
            \<and> NewResumptionState lib ticket st = Some cs)"

text \<open>
  A cache within its size limit, each key once, whose client sessions the libraries read
  back.
\<close>

definition cache_restorable :: "('cs, 'ss) tls_library \<Rightarrow> 'cs PersistableSessionCache \<Rightarrow> bool" where
  "cache_restorable lib c \<longleftrightarrow>
     distinct (map fst (sessions c))
     \<and> length (sessions c) \<le> TLSSessionCacheMaxSize
     \<and> (\<forall>(key, cached) \<in> set (sessions c).
          \<forall>cs. state cached = Some cs \<longrightarrow> library_reads_back lib cs)"

subsection \<open>What a round trip through a snapshot keeps\<close>

text \<open>The cookies of one domain as \<^verbatim>\<open>Export\<close> writes them at time \<open>t\<close>, and the keyed cookies
  that \<^verbatim>\<open>Import\<close> makes of a list of cookie states at time \<open>t\<close>.\<close>

definition exported :: "(string \<times> CookieData) list \<Rightarrow> int \<Rightarrow> CookieState list" where
  "exported m t = map export_cookie (filter (\<lambda>c. \<not> expired (Expires c) t) (map snd m))"

definition kept :: "CookieState list \<Rightarrow> int \<Rightarrow> (string \<times> CookieData) list" where
  "kept cs t = map (\<lambda>c. import_cookie c t) (filter (\<lambda>c. \<not> expired (cs_Expires c) t) cs)"

text \<open>One round of the loop of \<^verbatim>\<open>CookieJar.Export\<close>, and of the loop of the cache's
  \<^verbatim>\<open>Export\<close>, as functions of the entry and the result so far.\<close>

definition export_step ::
  "int \<Rightarrow> string \<times> (string \<times> CookieData) list \<Rightarrow> (string \<times> CookieState list) list
     \<Rightarrow> (string \<times> CookieState list) list" where
  "export_step t p result =
     (if exported (snd p) t = [] then result else AList.update (fst p) (exported (snd p) t) result)"

definition export_session_step ::
  "('cs, 'ss) tls_library \<Rightarrow> string \<times> 'cs cachedSession \<Rightarrow> (string \<times> TLSSessionState) list
     \<Rightarrow> (string \<times> TLSSessionState) list" where
  "export_session_step lib p result =
     (case export_session lib (snd p) of
        None \<Rightarrow> result
      | Some serialized \<Rightarrow> AList.update (fst p) serialized result)"

text \<open>The cookie of a jar under a domain and key, if it is not expired at time \<open>t\<close>.\<close>

definition unexpired_lookup :: "CookieJar \<Rightarrow> int \<Rightarrow> string \<Rightarrow> string \<Rightarrow> CookieData option" where
  "unexpired_lookup j t d k =
     (case jar_lookup j d k of
        None \<Rightarrow> None
      | Some c \<Rightarrow> if expired (Expires c) t then None else Some c)"

text \<open>The session of a cache under a key, if \<^verbatim>\<open>Export\<close> serialises it and it is at most 24
  hours old at time \<open>t\<close>.\<close>

definition restored_lookup ::
  "('cs, 'ss) tls_library \<Rightarrow> 'cs PersistableSessionCache \<Rightarrow> int \<Rightarrow> string \<Rightarrow> 'cs cachedSession option" where
  "restored_lookup lib c t key =
     (case map_of (sessions c) key of
        None \<Rightarrow> None
      | Some cached \<Rightarrow>
          if export_session lib cached = None \<or> time_Since t (createdAt cached) > TLSSessionMaxAge
          then None else Some cached)"

text \<open>Concrete stores: a cache with one session, and what a snapshot restores of it; a
  jar with one cookie set by name and value, and what a snapshot restores of it.\<close>

definition cache1 :: "(string \<times> string) PersistableSessionCache" where
  "cache1 = \<lparr>sessions = [(''h2:example.test:443'', \<lparr>state = Some (''t'', ''s''), createdAt = 0\<rparr>)],
             accessOrder = [''h2:example.test:443'']\<rparr>"

definition cache1_restored :: "(string \<times> string) PersistableSessionCache" where
  "cache1_restored =
     Cache_Import plain_library NewPersistableSessionCache (Cache_Export plain_library cache1) 0"

definition simple_jar :: CookieJar where
  "simple_jar = SetSimple NewCookieJar ''a'' ''b'' 0"

definition simple_jar_restored :: CookieJar where
  "simple_jar_restored = Jar_Import NewCookieJar (Jar_Export simple_jar 0) 0"

text \<open>The state of a cache in which \<^verbatim>\<open>accessOrder\<close> lists every cached key exactly once
  and the size limit holds; and the operations that are an \<^verbatim>\<open>Import\<close>.\<close>

definition cache_ok :: "'cs PersistableSessionCache \<Rightarrow> bool" where
  "cache_ok c \<longleftrightarrow>
     distinct (map fst (sessions c)) \<and> distinct (accessOrder c)
     \<and> set (accessOrder c) = fst ` set (sessions c)
     \<and> length (sessions c) \<le> TLSSessionCacheMaxSize"

fun is_import :: "'cs cache_op \<Rightarrow> bool" where
  "is_import (OpImport ss now) = True"
| "is_import op = False"

section \<open>Properties\<close>

subsection \<open>Subresource headers\<close>

text \<open>
  C7. For every resource type, page URL and target URL, the headers built for a
  subresource carry the values of the table: CSS has Accept \<^verbatim>\<open>text/css,*/*;q=0.1\<close>,
  Sec-Fetch-Dest \<^verbatim>\<open>style\<close>, Sec-Fetch-Mode \<^verbatim>\<open>no-cors\<close>, Priority \<^verbatim>\<open>u=0, i\<close>; JS has
  \<^verbatim>\<open>*/*\<close>, \<^verbatim>\<open>script\<close>, \<^verbatim>\<open>no-cors\<close>, \<^verbatim>\<open>u=1\<close>; an image has the long image Accept value,
  \<^verbatim>\<open>image\<close>, \<^verbatim>\<open>no-cors\<close>, \<^verbatim>\<open>u=2\<close>; a font has \<^verbatim>\<open>*/*\<close>, \<^verbatim>\<open>font\<close>, \<^verbatim>\<open>cors\<close>, \<^verbatim>\<open>u=3\<close>. The
  Referer is always the page URL, Sec-Fetch-Site is whatever the origin comparison
  yields, and there is no seventh header.
\<close>

theorem C7_subresource_headers:
  "buildSubresourceHeaders siteOf t pageURL targetURL ''Accept'' =
     Some [case t of resourceCSS \<Rightarrow> ''text/css,*/*;q=0.1'' | resourceJS \<Rightarrow> ''*/*''
           | resourceImage \<Rightarrow> ''image/avif,image/webp,image/apng,image/svg+xml,image/*,*/*;q=0.8''
           | resourceFont \<Rightarrow> ''*/*'']
   \<and> buildSubresourceHeaders siteOf t pageURL targetURL ''Sec-Fetch-Dest'' =
     Some [case t of resourceCSS \<Rightarrow> ''style'' | resourceJS \<Rightarrow> ''script''
           | resourceImage \<Rightarrow> ''image'' | resourceFont \<Rightarrow> ''font'']
   \<and> buildSubresourceHeaders siteOf t pageURL targetURL ''Sec-Fetch-Mode'' =
     Some [case t of resourceCSS \<Rightarrow> ''no-cors'' | resourceJS \<Rightarrow> ''no-cors''
           | resourceImage \<Rightarrow> ''no-cors'' | resourceFont \<Rightarrow> ''cors'']
   \<and> buildSubresourceHeaders siteOf t pageURL targetURL ''Priority'' =
     Some [case t of resourceCSS \<Rightarrow> ''u=0, i'' | resourceJS \<Rightarrow> ''u=1''
           | resourceImage \<Rightarrow> ''u=2'' | resourceFont \<Rightarrow> ''u=3'']
   \<and> buildSubresourceHeaders siteOf t pageURL targetURL ''Referer'' = Some [pageURL]
   \<and> buildSubresourceHeaders siteOf t pageURL targetURL ''Sec-Fetch-Site'' =
     Some [siteOf pageURL targetURL]
   \<and> dom (buildSubresourceHeaders siteOf t pageURL targetURL) =
     {''Accept'', ''Sec-Fetch-Site'', ''Sec-Fetch-Mode'', ''Sec-Fetch-Dest'', ''Referer'', ''Priority''}"
  by (cases t)
     (simp_all add: buildSubresourceHeaders_def StyleContext_def ScriptContext_def
        ImageContext_def FontContext_def GenerateSecFetchHeaders_def insert_commute)

subsection \<open>The final URL field of the fast binding\<close>

lemma copy_final_url_eq:
  "i \<le> length src \<Longrightarrow> length src \<le> length dst \<Longrightarrow>
   copy_final_url dst src i = take i dst @ drop i src @ drop (length src) dst"
proof (induction dst src i rule: copy_final_url.induct)
  case (1 dst src i)
  show ?case
  proof (cases "i < length src")
    case True
    have "copy_final_url dst src i = copy_final_url (dst[i := src ! i]) src (Suc i)"
      using True by (subst copy_final_url.simps) simp
    also have "\<dots> = take (Suc i) (dst[i := src ! i]) @ drop (Suc i) src @ drop (length src) (dst[i := src ! i])"
      using 1 True by simp
    also have "take (Suc i) (dst[i := src ! i]) = take i dst @ [src ! i]"
      using True 1 by (simp add: take_Suc_conv_app_nth)
    also have "drop (length src) (dst[i := src ! i]) = drop (length src) dst"
      using True by simp
    finally show ?thesis using True by (simp add: Cons_nth_drop_Suc)
  next
    case False
    then have "i = length src" using 1 by simp
    then show ?thesis using 1 by (subst copy_final_url.simps) simp
  qed
qed

lemma set_final_url_short:
  assumes "length buf = 2048" "length u < 2047"
  shows "set_final_url buf u = u @ 0 # drop (Suc (length u)) buf"
proof -
  have "drop (length u) buf = buf ! length u # drop (Suc (length u)) buf"
    using assms by (simp add: Cons_nth_drop_Suc)
  then show ?thesis
    using assms by (simp add: set_final_url_def copy_final_url_eq list_update_append)
qed

lemma c_string_app: "0 \<notin> set u \<Longrightarrow> c_string (u @ 0 # r) = u"
  by (induction u) (simp_all add: c_string_def)

lemma c_string_zero: "c_string (buf[0 := 0]) = []"
  by (cases buf) (simp_all add: c_string_def)

text \<open>
  C10. In the fast C binding the 2048-byte \<^verbatim>\<open>final_url\<close> field reads as the empty
  string when the response's final URL has 2047 bytes or more: nothing of the URL is
  copied, not even a prefix. A final URL of fewer than 2047 bytes is copied byte for byte
  and followed by a NUL, so that a URL without an embedded NUL reads back unchanged. Both
  \<^verbatim>\<open>httpcloak_get_fast_finish\<close> and \<^verbatim>\<open>httpcloak_get_fast\<close> do this.
\<close>

theorem C10_final_url:
  assumes "length (final_url meta) = 2048"
  shows "(2047 \<le> length (FinalURL resp) \<longrightarrow>
            c_string (final_url (httpcloak_get_fast_finish meta resp body)) = []
          \<and> c_string (final_url (httpcloak_get_fast meta resp body)) = [])
       \<and> (length (FinalURL resp) < 2047 \<longrightarrow>
            take (length (FinalURL resp)) (final_url (httpcloak_get_fast_finish meta resp body)) = FinalURL resp
          \<and> final_url (httpcloak_get_fast_finish meta resp body) ! length (FinalURL resp) = 0
          \<and> take (length (FinalURL resp)) (final_url (httpcloak_get_fast meta resp body)) = FinalURL resp
          \<and> final_url (httpcloak_get_fast meta resp body) ! length (FinalURL resp) = 0
          \<and> (0 \<notin> set (FinalURL resp) \<longrightarrow>
               c_string (final_url (httpcloak_get_fast_finish meta resp body)) = FinalURL resp
             \<and> c_string (final_url (httpcloak_get_fast meta resp body)) = FinalURL resp))"
proof (intro conjI impI)
  assume long: "2047 \<le> length (FinalURL resp)"
  then show "c_string (final_url (httpcloak_get_fast_finish meta resp body)) = []"
    by (simp add: httpcloak_get_fast_finish_def set_final_url_def c_string_zero)
  from long show "c_string (final_url (httpcloak_get_fast meta resp body)) = []"
    by (simp add: httpcloak_get_fast_def set_final_url_def c_string_zero)
next
  assume short: "length (FinalURL resp) < 2047"
  note eq = set_final_url_short [OF assms short]
  show "take (length (FinalURL resp)) (final_url (httpcloak_get_fast_finish meta resp body)) = FinalURL resp"
    by (simp add: httpcloak_get_fast_finish_def eq)
  show "final_url (httpcloak_get_fast_finish meta resp body) ! length (FinalURL resp) = 0"
    by (simp add: httpcloak_get_fast_finish_def eq)
  show "take (length (FinalURL resp)) (final_url (httpcloak_get_fast meta resp body)) = FinalURL resp"
    by (simp add: httpcloak_get_fast_def eq)
  show "final_url (httpcloak_get_fast meta resp body) ! length (FinalURL resp) = 0"
    by (simp add: httpcloak_get_fast_def eq)
  assume "0 \<notin> set (FinalURL resp)"
  then show "c_string (final_url (httpcloak_get_fast_finish meta resp body)) = FinalURL resp"
    by (simp add: httpcloak_get_fast_finish_def eq c_string_app)
  from \<open>0 \<notin> set (FinalURL resp)\<close>
  show "c_string (final_url (httpcloak_get_fast meta resp body)) = FinalURL resp"
    by (simp add: httpcloak_get_fast_def eq c_string_app)
qed

theorem C10_final_url_witness:
  "length (final_url meta0) = 2048
   \<and> 2047 \<le> length (FinalURL resp_long)
   \<and> c_string (final_url (httpcloak_get_fast_finish meta0 resp_long [])) = []
   \<and> length (FinalURL resp_short) < 2047 \<and> 0 \<notin> set (FinalURL resp_short)
   \<and> c_string (final_url (httpcloak_get_fast_finish meta0 resp_short [])) = [104, 116, 116, 112]
   \<and> c_string (final_url (httpcloak_get_fast meta0 resp_short [])) = [104, 116, 116, 112]"
proof -
  have len: "length (final_url meta0) = 2048" by (simp add: meta0_def)
  have l: "2047 \<le> length (FinalURL resp_long)" by (simp add: resp_long_def)
  have s: "length (FinalURL resp_short) < 2047" "0 \<notin> set (FinalURL resp_short)"
    by (simp_all add: resp_short_def)
  from C10_final_url [OF len, of resp_long "[]"] l C10_final_url [OF len, of resp_short "[]"] s len
  show ?thesis by (simp add: resp_short_def)
qed

subsection \<open>Cookie jar: which cookies a request receives\<close>

lemma HasPrefix_iff: "strings_HasPrefix s pre \<longleftrightarrow> prefix pre s"
proof
  assume "strings_HasPrefix s pre"
  then have "s = pre @ drop (length pre) s"
    by (metis append_take_drop_id strings_HasPrefix_def)
  then show "prefix pre s" by (metis prefixI)
next
  assume "prefix pre s"
  then show "strings_HasPrefix s pre"
    by (auto simp: strings_HasPrefix_def prefix_def)
qed

lemma HasSuffix_iff: "strings_HasSuffix s suf \<longleftrightarrow> suffix suf s"
proof
  assume "strings_HasSuffix s suf"
  then have "s = take (length s - length suf) s @ suf"
    by (metis append_take_drop_id strings_HasSuffix_def)
  then show "suffix suf s" by (metis suffixI)
next
  assume "suffix suf s"
  then show "strings_HasSuffix s suf"
    by (auto simp: strings_HasSuffix_def suffix_def)
qed

lemma HasSuffix_slash: "strings_HasSuffix p ''/'' \<longleftrightarrow> p \<noteq> [] \<and> last p = CHR ''/''"
proof (cases p rule: rev_cases)
  case Nil
  then show ?thesis by (simp add: strings_HasSuffix_def)
next
  case (snoc ys y)
  then show ?thesis by (auto simp: HasSuffix_iff suffix_def)
qed

lemma isPathMatch_spec: "isPathMatch requestPath cookiePath \<longleftrightarrow> path_match_spec requestPath cookiePath"
  by (auto simp: isPathMatch_def path_match_spec_def HasPrefix_iff HasSuffix_slash)

lemma set_insert_by: "set (insert_by lt x xs) = insert x (set xs)"
  by (induction xs) auto

lemma set_sort_Slice: "set (sort_Slice lt xs) = set xs"
  by (induction xs) (simp_all add: sort_Slice_def set_insert_by)

lemma mset_insert_by: "mset (insert_by lt x xs) = add_mset x (mset xs)"
  by (induction xs) auto

lemma mset_sort_Slice: "mset (sort_Slice lt xs) = mset xs"
  by (induction xs) (simp_all add: sort_Slice_def mset_insert_by)

lemma cookie_le_iff: "cookie_le a b \<longleftrightarrow> \<not> cookie_less b a"
  by (auto simp: cookie_le_def cookie_less_def)

lemma cookie_le_trans: "cookie_le a b \<Longrightarrow> cookie_le b c \<Longrightarrow> cookie_le a c"
  by (auto simp: cookie_le_def)

lemma cookie_less_le: "cookie_less a b \<Longrightarrow> cookie_le a b"
  by (auto simp: cookie_le_def cookie_less_def split: if_splits)

lemma sorted_insert_by:
  "sorted_wrt cookie_le xs \<Longrightarrow> sorted_wrt cookie_le (insert_by cookie_less x xs)"
proof (induction xs)
  case Nil
  then show ?case by simp
next
  case (Cons y ys)
  show ?case
  proof (cases "cookie_less y x")
    case True
    with Cons show ?thesis
      by (auto simp: set_insert_by cookie_less_le)
  next
    case False
    then have "cookie_le x y" by (simp add: cookie_le_iff)
    with Cons.prems show ?thesis
      using False by (auto intro: cookie_le_trans)
  qed
qed

lemma sorted_sort_Slice: "sorted_wrt cookie_le (sort_Slice cookie_less xs)"
  by (induction xs) (simp_all add: sort_Slice_def sorted_insert_by)

lemma HasPrefix_dot: "strings_HasPrefix s ''.'' \<longleftrightarrow> (\<exists>d. s = ''.'' @ d)"
  by (cases s) (auto simp: strings_HasPrefix_def)

lemma domainMatchesHost_spec: "domainMatchesHost d h \<longleftrightarrow> d = [] \<or> domain_match_spec d h"
  by (auto simp: domainMatchesHost_def domain_match_spec_def HasPrefix_dot HasSuffix_iff)

lemma domain_match_spec_code:
  "domain_match_spec d h \<longleftrightarrow>
     h = d \<or> (strings_HasPrefix d ''.'' \<and> (h = drop 1 d \<or> strings_HasSuffix h d))"
  by (auto simp: domain_match_spec_def HasPrefix_dot HasSuffix_iff)

lemma mem_collect:
  "c \<in> set (concat (map (\<lambda>(domain, domainCookies).
                 if \<not> dm domain then [] else filter (P domain) (map snd domainCookies)) j))
   \<longleftrightarrow> (\<exists>domain domainCookies key.
          (domain, domainCookies) \<in> set j \<and> (key, c) \<in> set domainCookies
          \<and> dm domain \<and> P domain c)"
proof (induction j)
  case Nil
  then show ?case by simp
next
  case (Cons e j)
  obtain d dcs where e: "e = (d, dcs)" by (cases e)
  have "c \<in> set (if \<not> dm d then [] else filter (P d) (map snd dcs))
        \<longleftrightarrow> (\<exists>key. (key, c) \<in> set dcs \<and> dm d \<and> P d c)"
    by force
  with Cons show ?case
    unfolding e by (simp del: set_filter set_map) blast
qed

lemma set_Get:
  "c \<in> set (Get toLower j requestHost requestPath requestSecure now) \<longleftrightarrow>
     (\<exists>domain domainCookies key.
           (domain, domainCookies) \<in> set j \<and> (key, c) \<in> set domainCookies
           \<and> domainMatchesHost domain (normalizeHost toLower requestHost)
           \<and> cookie_sent domain (normalizeHost toLower requestHost)
                (if requestPath = [] then ''/'' else requestPath) requestSecure now c)"
  unfolding Get_def Let_def set_sort_Slice by (rule mem_collect)


lemma cookie_sent_iff:
  "cookie_sent domain h p sec now c \<longleftrightarrow>
     (HostOnly c \<longrightarrow> h = domain) \<and> isPathMatch p (Path c) \<and> (Secure c \<longrightarrow> sec)
     \<and> (\<forall>e. Expires c = Some e \<longrightarrow> now \<le> e)"
  by (auto simp: cookie_sent_def split: option.splits)

text \<open>
  C1, as amended. For every jar, every cookie and every request, \<^verbatim>\<open>Get\<close> returns the
  cookie exactly when it is stored in the jar, under some domain key and cookie key, such
  that the domain key is empty (the cookies that \<^verbatim>\<open>SetSimple\<close> stores for all hosts) or
  matches the normalised request host, a host-only cookie is returned only when the host
  equals the domain it is stored under, the cookie's path matches the request path (the
  empty request path counting as the root path), the cookie is not a Secure cookie on a
  request that is not over HTTPS, and its expiry time, if it has one, is not before the
  time of the call.
\<close>

theorem C1_get_includes:
  "c \<in> set (Get toLower j requestHost requestPath requestSecure now) \<longleftrightarrow>
     (\<exists>domain domainCookies key.
        (domain, domainCookies) \<in> set j \<and> (key, c) \<in> set domainCookies
        \<and> (domain = [] \<or> domain_match_spec domain (normalizeHost toLower requestHost))
        \<and> (HostOnly c \<longrightarrow> normalizeHost toLower requestHost = domain)
        \<and> path_match_spec (if requestPath = [] then ''/'' else requestPath) (Path c)
        \<and> (Secure c \<longrightarrow> requestSecure)
        \<and> (\<forall>e. Expires c = Some e \<longrightarrow> now \<le> e))"
  unfolding set_Get cookie_sent_iff domainMatchesHost_spec isPathMatch_spec by (rule refl)

theorem C1_get_includes_witness:
  "cookie1 \<in> set (Get ascii_ToLower jar1 ''API.example.test:443'' ''/page'' True 7)
   \<and> cookie1 \<notin> set (Get ascii_ToLower jar1 ''api.example.test'' ''/page'' False 7)
   \<and> cookie1 \<notin> set (Get ascii_ToLower jar1 ''api.example.test'' ''/page'' True 101)"
proof -
  have h: "normalizeHost ascii_ToLower ''API.example.test:443'' = ''api.example.test''"
    by code_simp
  have h2: "normalizeHost ascii_ToLower ''api.example.test'' = ''api.example.test''"
    by code_simp
  have d: "domain_match_spec ''.example.test'' ''api.example.test''"
    unfolding domain_match_spec_code by code_simp
  have p: "path_match_spec ''/page'' ''/''"
    unfolding isPathMatch_spec [symmetric] by code_simp
  have f: "Secure cookie1" "\<not> HostOnly cookie1" "Expires cookie1 = Some 100" "Path cookie1 = ''/''"
    by (simp_all add: cookie1_def)
  have 1: "cookie1 \<in> set (Get ascii_ToLower jar1 ''API.example.test:443'' ''/page'' True 7)"
    unfolding C1_get_includes h
    apply (rule exI [of _ "''.example.test''"])
    apply (rule exI [of _ "[(cookieKey ''/'' ''sid'', cookie1)]"])
    apply (rule exI [of _ "cookieKey ''/'' ''sid''"])
    using d p f by (simp add: jar1_def)
  have 2: "cookie1 \<notin> set (Get ascii_ToLower jar1 ''api.example.test'' ''/page'' False 7)"
    unfolding C1_get_includes using f by simp
  have 3: "cookie1 \<notin> set (Get ascii_ToLower jar1 ''api.example.test'' ''/page'' True 101)"
    unfolding C1_get_includes using f by simp
  from 1 2 3 show ?thesis by simp
qed

text \<open>
  C1 as stated lets \<^verbatim>\<open>Get\<close> return a cookie only when its domain matches the request
  host. The cookie that \<^verbatim>\<open>SetSimple\<close> stores has the empty domain, which is neither the
  host nor a domain with a leading dot, and \<^verbatim>\<open>Get\<close> returns it all the same.
\<close>

theorem C1_global_cookie_counterexample:
  "jar_lookup simple_jar [] (cookieKey ''/'' ''a'')
     = Some \<lparr>Name = ''a'', Value = ''b'', Domain = [], HostOnly = False, Path = ''/'',
              Expires = None, MaxAge = 0, Secure = False, HttpOnly = False, SameSite = [],
              CreatedAt = 0\<rparr>
   \<and> \<lparr>Name = ''a'', Value = ''b'', Domain = [], HostOnly = False, Path = ''/'',
       Expires = None, MaxAge = 0, Secure = False, HttpOnly = False, SameSite = [],
       CreatedAt = 0\<rparr>
     \<in> set (Get ascii_ToLower simple_jar ''example.com'' ''/'' True 0)
   \<and> \<not> domain_match_spec [] (normalizeHost ascii_ToLower ''example.com'')"
  unfolding domain_match_spec_code by code_simp

subsection \<open>Cookie jar: order of the result and the Cookie header\<close>

text \<open>
  C8. For every jar and request, the list that \<^verbatim>\<open>Get\<close> returns is ordered by path
  length, longest first, and among cookies with paths of equal length by creation time,
  oldest first; and \<^verbatim>\<open>BuildCookieHeader\<close> is the \<^verbatim>\<open>name=value\<close> pairs of exactly that
  list, in its order, joined by a semicolon and a space (the empty string when no cookie
  matches).
\<close>

theorem C8_get_sorted_header:
  "sorted_wrt (\<lambda>a b. length (Path a) > length (Path b)
                      \<or> (length (Path a) = length (Path b) \<and> CreatedAt a \<le> CreatedAt b))
     (Get toLower j requestHost requestPath requestSecure now)
   \<and> BuildCookieHeader toLower j requestHost requestPath requestSecure now =
       strings_Join (map (\<lambda>c. Name c @ ''='' @ Value c)
                       (Get toLower j requestHost requestPath requestSecure now)) ''; ''"
proof
  have "sorted_wrt cookie_le (Get toLower j requestHost requestPath requestSecure now)"
    by (simp add: Get_def Let_def sorted_sort_Slice)
  then show "sorted_wrt (\<lambda>a b. length (Path a) > length (Path b)
                      \<or> (length (Path a) = length (Path b) \<and> CreatedAt a \<le> CreatedAt b))
     (Get toLower j requestHost requestPath requestSecure now)"
    by (simp add: cookie_le_def [abs_def])
  show "BuildCookieHeader toLower j requestHost requestPath requestSecure now =
       strings_Join (map (\<lambda>c. Name c @ ''='' @ Value c)
                       (Get toLower j requestHost requestPath requestSecure now)) ''; ''"
    by (simp add: BuildCookieHeader_def Let_def)
qed

subsection \<open>Cookie jar: cookies set by name and value\<close>

lemma update_mem: "(k, v) \<in> set (AList.update k v al)"
  by (induction al) auto

lemma jar_lookup_store:
  "jar_lookup (AList.update domain
                 (AList.update key c (case map_of j domain of None \<Rightarrow> [] | Some m \<Rightarrow> m)) j) d k =
     (if d = domain \<and> k = key then Some c else jar_lookup j d k)"
  by (auto simp: jar_lookup_def update_conv' split: option.splits)

text \<open>
  C9. A cookie set through \<^verbatim>\<open>SetSimple\<close> is stored under the empty domain key, and
  \<^verbatim>\<open>Get\<close> returns it for every request host, every request path and both values of the
  secure flag, at every time: it is sent to all origins. A request path is the path of a
  URL, which is empty or begins with a slash.
\<close>

theorem C9_setsimple_global:
  assumes "requestPath = [] \<or> hd requestPath = CHR ''/''"
  shows "jar_lookup (SetSimple j name val t) [] (cookieKey ''/'' name) =
           Some \<lparr>Name = name, Value = val, Domain = [], HostOnly = False, Path = ''/'',
                 Expires = None, MaxAge = 0, Secure = False, HttpOnly = False, SameSite = [],
                 CreatedAt = t\<rparr>
       \<and> \<lparr>Name = name, Value = val, Domain = [], HostOnly = False, Path = ''/'',
           Expires = None, MaxAge = 0, Secure = False, HttpOnly = False, SameSite = [],
           CreatedAt = t\<rparr>
         \<in> set (Get toLower (SetSimple j name val t) requestHost requestPath requestSecure now)"
proof
  show "jar_lookup (SetSimple j name val t) [] (cookieKey ''/'' name) =
           Some \<lparr>Name = name, Value = val, Domain = [], HostOnly = False, Path = ''/'',
                 Expires = None, MaxAge = 0, Secure = False, HttpOnly = False, SameSite = [],
                 CreatedAt = t\<rparr>"
    by (simp add: SetSimple_def Let_def jar_lookup_store)
  let ?c = "\<lparr>Name = name, Value = val, Domain = [], HostOnly = False, Path = ''/'',
           Expires = None, MaxAge = 0, Secure = False, HttpOnly = False, SameSite = [],
           CreatedAt = t\<rparr>"
  let ?inner = "AList.update (cookieKey ''/'' name) ?c (case map_of j [] of None \<Rightarrow> [] | Some m \<Rightarrow> m)"
  have pm: "isPathMatch (if requestPath = [] then ''/'' else requestPath) ''/''"
    using assms by (cases requestPath) (auto simp: isPathMatch_def strings_HasPrefix_def strings_HasSuffix_def)
  have "([], ?inner) \<in> set (SetSimple j name val t)"
    by (simp add: SetSimple_def Let_def update_mem)
  moreover have "(cookieKey ''/'' name, ?c) \<in> set ?inner"
    by (rule update_mem)
  moreover have "domainMatchesHost [] (normalizeHost toLower requestHost)"
    by (simp add: domainMatchesHost_def)
  moreover have "cookie_sent [] (normalizeHost toLower requestHost)
                  (if requestPath = [] then ''/'' else requestPath) requestSecure now ?c"
    using pm by (simp add: cookie_sent_def)
  ultimately show "?c \<in> set (Get toLower (SetSimple j name val t) requestHost requestPath requestSecure now)"
    unfolding set_Get by blast
qed

theorem C9_setsimple_global_witness:
  "\<lparr>Name = ''a'', Value = ''b'', Domain = [], HostOnly = False, Path = ''/'',
     Expires = None, MaxAge = 0, Secure = False, HttpOnly = False, SameSite = [],
     CreatedAt = 3\<rparr>
   \<in> set (Get ascii_ToLower (SetSimple jar1 ''a'' ''b'' 3) ''other.test'' ''/x/y'' False 9)"
  using C9_setsimple_global [where requestPath = "''/x/y''" and j = jar1 and name = "''a''" and val = "''b''"
      and t = 3 and toLower = ascii_ToLower and requestHost = "''other.test''" and requestSecure = False and now = 9]
  by simp

text \<open>
  A string that is not the path of a URL, being neither empty nor begun by a slash, does
  not have the cookie's path \<^verbatim>\<open>/\<close> as a prefix: for such a string \<^verbatim>\<open>Get\<close> returns no
  cookie with that path.
\<close>

lemma root_path_cookie_needs_slash:
  assumes "requestPath \<noteq> []" and "hd requestPath \<noteq> CHR ''/''" and "Path c = ''/''"
  shows "c \<notin> set (Get toLower j requestHost requestPath requestSecure now)"
proof
  assume "c \<in> set (Get toLower j requestHost requestPath requestSecure now)"
  then have "isPathMatch requestPath (Path c)"
    using assms(1) unfolding set_Get cookie_sent_iff by auto
  with assms show False
    by (cases requestPath) (auto simp: isPathMatch_def strings_HasPrefix_def split: if_splits)
qed

subsection \<open>Cookie jar: what Set rejects and what it stores\<close>

lemma isDomainMatch_spec:
  "isDomainMatch host domain \<longleftrightarrow> host = domain \<or> suffix (''.'' @ domain) host"
  by (simp add: isDomainMatch_def HasSuffix_iff)

text \<open>
  C2. \<^verbatim>\<open>Set\<close> returns the jar unchanged when the cookie is Secure and the request was not
  over HTTPS, or when the Domain attribute is not empty and the normalised request host
  is neither the (lower-cased, dot-stripped) domain nor ends in a dot followed by it. In
  every other case exactly one entry of the jar is written: under the cookie key of
  (path, name), in the domain of the normalised request host with \<^verbatim>\<open>HostOnly\<close> true when
  the Domain attribute is empty, and in the domain with a leading dot with \<^verbatim>\<open>HostOnly\<close>
  false when it is not. Every other entry of the jar stays as it was.
\<close>

theorem C2_set_rejects_or_stores:
  "let h = normalizeHost toLower requestHost;
       d = strings_TrimPrefix (toLower (Domain cookie)) ''.'';
       rejected = ((Secure cookie \<and> \<not> requestSecure)
                   \<or> (Domain cookie \<noteq> [] \<and> \<not> (h = d \<or> suffix (''.'' @ d) h)));
       domain = (if Domain cookie = [] then h else ''.'' @ d);
       path = (if Path cookie = [] \<or> hd (Path cookie) \<noteq> CHR ''/'' then ''/'' else Path cookie);
       stored = \<lparr>Name = Name cookie, Value = Value cookie, Domain = domain,
                 HostOnly = (Domain cookie = []), Path = path, Expires = Expires cookie,
                 MaxAge = MaxAge cookie, Secure = Secure cookie, HttpOnly = HttpOnly cookie,
                 SameSite = SameSite cookie, CreatedAt = now\<rparr>
   in (rejected \<longrightarrow> Set toLower j requestHost cookie requestSecure now = j)
    \<and> (\<not> rejected \<longrightarrow>
         (\<forall>d' k'. jar_lookup (Set toLower j requestHost cookie requestSecure now) d' k' =
             (if d' = domain \<and> k' = cookieKey path (Name cookie) then Some stored
              else jar_lookup j d' k')))"
  unfolding Let_def
proof (intro conjI impI allI)
  assume "(Secure cookie \<and> \<not> requestSecure)
      \<or> (Domain cookie \<noteq> [] \<and> \<not> (normalizeHost toLower requestHost = strings_TrimPrefix (toLower (Domain cookie)) ''.''
            \<or> suffix (''.'' @ strings_TrimPrefix (toLower (Domain cookie)) ''.'') (normalizeHost toLower requestHost)))"
  then show "Set toLower j requestHost cookie requestSecure now = j"
    by (auto simp: Set_def Let_def isDomainMatch_spec)
next
  fix d' k'
  assume acc: "\<not> ((Secure cookie \<and> \<not> requestSecure)
      \<or> (Domain cookie \<noteq> [] \<and> \<not> (normalizeHost toLower requestHost = strings_TrimPrefix (toLower (Domain cookie)) ''.''
            \<or> suffix (''.'' @ strings_TrimPrefix (toLower (Domain cookie)) ''.'') (normalizeHost toLower requestHost))))"
  show "jar_lookup (Set toLower j requestHost cookie requestSecure now) d' k' =
       (if d' = (if Domain cookie = [] then normalizeHost toLower requestHost
                 else ''.'' @ strings_TrimPrefix (toLower (Domain cookie)) ''.'')
           \<and> k' = cookieKey (if Path cookie = [] \<or> hd (Path cookie) \<noteq> CHR ''/'' then ''/'' else Path cookie) (Name cookie)
        then Some \<lparr>Name = Name cookie, Value = Value cookie,
                   Domain = (if Domain cookie = [] then normalizeHost toLower requestHost
                             else ''.'' @ strings_TrimPrefix (toLower (Domain cookie)) ''.''),
                   HostOnly = (Domain cookie = []),
                   Path = (if Path cookie = [] \<or> hd (Path cookie) \<noteq> CHR ''/'' then ''/'' else Path cookie),
                   Expires = Expires cookie, MaxAge = MaxAge cookie, Secure = Secure cookie,
                   HttpOnly = HttpOnly cookie, SameSite = SameSite cookie, CreatedAt = now\<rparr>
        else jar_lookup j d' k')"
  proof (cases "Domain cookie = []")
    case True
    from acc have "(Secure cookie \<and> \<not> requestSecure) = False" by blast
    with True show ?thesis
      by (auto simp: Set_def Let_def jar_lookup_store)
  next
    case False
    from acc have ns: "(Secure cookie \<and> \<not> requestSecure) = False" by blast
    from acc False
    have "isDomainMatch (normalizeHost toLower requestHost) (strings_TrimPrefix (toLower (Domain cookie)) ''.'')"
      unfolding isDomainMatch_spec by blast
    with ns False show ?thesis
      by (auto simp: Set_def Let_def jar_lookup_store)
  qed
qed

theorem C2_set_rejects_or_stores_witness:
  "Set ascii_ToLower jar1 ''example.test'' (cookie2\<lparr>Secure := True\<rparr>) False 5 = jar1
   \<and> Set ascii_ToLower jar1 ''other.test'' cookie2 True 5 = jar1
   \<and> jar_lookup (Set ascii_ToLower jar1 ''API.example.test:443'' cookie2 True 5) ''.example.test'' (cookieKey ''/'' ''sid'')
       = Some \<lparr>Name = ''sid'', Value = ''abc'', Domain = ''.example.test'', HostOnly = False,
                Path = ''/'', Expires = None, MaxAge = 0, Secure = False, HttpOnly = False,
                SameSite = [], CreatedAt = 5\<rparr>
   \<and> jar_lookup (Set ascii_ToLower jar1 ''API.example.test:443'' (cookie2\<lparr>Domain := []\<rparr>) True 5) ''api.example.test'' (cookieKey ''/'' ''sid'')
       = Some \<lparr>Name = ''sid'', Value = ''abc'', Domain = ''api.example.test'', HostOnly = True,
                Path = ''/'', Expires = None, MaxAge = 0, Secure = False, HttpOnly = False,
                SameSite = [], CreatedAt = 5\<rparr>"
proof -
  have h: "normalizeHost ascii_ToLower ''API.example.test:443'' = ''api.example.test''"
          "normalizeHost ascii_ToLower ''example.test'' = ''example.test''"
          "normalizeHost ascii_ToLower ''other.test'' = ''other.test''"
    by code_simp+
  have d: "strings_TrimPrefix (ascii_ToLower ''Example.test'') ''.'' = ''example.test''"
    by code_simp
  have s: "suffix ''.example.test'' ''api.example.test''"
          "\<not> suffix ''.example.test'' ''other.test''"
    unfolding HasSuffix_iff [symmetric] by code_simp+
  have 1: "Set ascii_ToLower jar1 ''example.test'' (cookie2\<lparr>Secure := True\<rparr>) False 5 = jar1"
    using C2_set_rejects_or_stores [where toLower = ascii_ToLower and requestHost = "''example.test''" and cookie = "cookie2\<lparr>Secure := True\<rparr>" and requestSecure = False and j = jar1 and now = 5]
    by (simp add: Let_def cookie2_def)
  have 2: "Set ascii_ToLower jar1 ''other.test'' cookie2 True 5 = jar1"
    using C2_set_rejects_or_stores [where toLower = ascii_ToLower and requestHost = "''other.test''" and cookie = cookie2 and requestSecure = True and j = jar1 and now = 5] s
    by (simp add: Let_def cookie2_def h d)
  have 3: "jar_lookup (Set ascii_ToLower jar1 ''API.example.test:443'' cookie2 True 5) ''.example.test'' (cookieKey ''/'' ''sid'')
       = Some \<lparr>Name = ''sid'', Value = ''abc'', Domain = ''.example.test'', HostOnly = False,
                Path = ''/'', Expires = None, MaxAge = 0, Secure = False, HttpOnly = False,
                SameSite = [], CreatedAt = 5\<rparr>"
    using C2_set_rejects_or_stores [where toLower = ascii_ToLower and requestHost = "''API.example.test:443''" and cookie = cookie2 and requestSecure = True and j = jar1 and now = 5] s
    by (simp add: Let_def cookie2_def h d)
  have 4: "jar_lookup (Set ascii_ToLower jar1 ''API.example.test:443'' (cookie2\<lparr>Domain := []\<rparr>) True 5) ''api.example.test'' (cookieKey ''/'' ''sid'')
       = Some \<lparr>Name = ''sid'', Value = ''abc'', Domain = ''api.example.test'', HostOnly = True,
                Path = ''/'', Expires = None, MaxAge = 0, Secure = False, HttpOnly = False,
                SameSite = [], CreatedAt = 5\<rparr>"
    using C2_set_rejects_or_stores [where toLower = ascii_ToLower and requestHost = "''API.example.test:443''" and cookie = "cookie2\<lparr>Domain := []\<rparr>" and requestSecure = True and j = jar1 and now = 5]
    by (simp add: Let_def cookie2_def h)
  from 1 2 3 4 show ?thesis by blast
qed

subsection \<open>TLS session cache: the age limit on import\<close>

lemma import_sessions_Cons:
  "import_sessions lib c ((key, s) # ss) now =
     import_sessions lib
       (case import_session lib s now of
          None \<Rightarrow> c
        | Some cached \<Rightarrow> c\<lparr>sessions := AList.update key cached (sessions c),
                            accessOrder := accessOrder c @ [key]\<rparr>) ss now"
  by (simp add: import_sessions_def)

lemma import_sessions_Nil: "import_sessions lib c [] now = c"
  by (simp add: import_sessions_def)

lemma import_sessions_origin:
  "map_of (sessions (import_sessions lib c ss now)) key = Some e \<Longrightarrow>
   map_of (sessions c) key = Some e \<or> (\<exists>s. (key, s) \<in> set ss \<and> import_session lib s now = Some e)"
proof (induction ss arbitrary: c)
  case Nil
  then show ?case by (simp add: import_sessions_Nil)
next
  case (Cons p ss)
  obtain k s where p: "p = (k, s)" by (cases p)
  show ?case
  proof (cases "import_session lib s now")
    case None
    with Cons.prems have "map_of (sessions (import_sessions lib c ss now)) key = Some e"
      by (simp add: p import_sessions_Cons)
    from Cons.IH [OF this] show ?thesis by auto
  next
    case (Some cached)
    let ?c = "c\<lparr>sessions := AList.update k cached (sessions c), accessOrder := accessOrder c @ [k]\<rparr>"
    from Cons.prems Some have "map_of (sessions (import_sessions lib ?c ss now)) key = Some e"
      by (simp add: p import_sessions_Cons)
    from Cons.IH [OF this] show ?thesis
      using Some by (auto simp: p update_conv' split: if_splits)
  qed
qed

lemma import_sessions_other:
  "key \<notin> fst ` set ss \<Longrightarrow>
   map_of (sessions (import_sessions lib c ss now)) key = map_of (sessions c) key"
proof (induction ss arbitrary: c)
  case Nil
  then show ?case by (simp add: import_sessions_Nil)
next
  case (Cons p ss)
  obtain k s where p: "p = (k, s)" by (cases p)
  from Cons.prems have "key \<noteq> k" "key \<notin> fst ` set ss" by (auto simp: p)
  then show ?case
    by (cases "import_session lib s now") (simp_all add: p import_sessions_Cons Cons.IH update_conv')
qed

lemma import_sessions_stores:
  "distinct (map fst ss) \<Longrightarrow> (key, s) \<in> set ss \<Longrightarrow> import_session lib s now = Some cached \<Longrightarrow>
   map_of (sessions (import_sessions lib c ss now)) key = Some cached"
proof (induction ss arbitrary: c)
  case Nil
  then show ?case by simp
next
  case (Cons p ss)
  obtain k s' where p: "p = (k, s')" by (cases p)
  show ?case
  proof (cases "(key, s) \<in> set ss")
    case True
    with Cons show ?thesis
      by (cases "import_session lib s' now") (simp_all add: p import_sessions_Cons)
  next
    case False
    with Cons.prems have eq: "k = key" "s' = s" and notin: "key \<notin> fst ` set ss"
      by (auto simp: p)
    show ?thesis
      using Cons.prems(3) by (simp add: p eq import_sessions_Cons import_sessions_other [OF notin] update_conv')
  qed
qed

lemma enforce_max_size_sub:
  "map_of (sessions (enforce_max_size c)) key = Some e \<Longrightarrow> map_of (sessions c) key = Some e"
proof (induction c rule: enforce_max_size.induct)
  case (1 c)
  show ?case
  proof (cases "length (sessions c) > TLSSessionCacheMaxSize \<and> length (accessOrder c) > 0")
    case True
    let ?c = "c\<lparr>accessOrder := tl (accessOrder c), sessions := AList.delete (hd (accessOrder c)) (sessions c)\<rparr>"
    from True "1.prems" have "map_of (sessions (enforce_max_size ?c)) key = Some e"
      by (subst (asm) enforce_max_size.simps) simp
    from "1.IH" [OF True this] show ?thesis
      by (simp add: delete_conv' split: if_splits)
  next
    case False
    with "1.prems" show ?thesis
      by (subst (asm) enforce_max_size.simps) auto
  qed
qed

lemma enforce_max_size_small:
  "length (sessions c) \<le> TLSSessionCacheMaxSize \<Longrightarrow> enforce_max_size c = c"
  by (subst enforce_max_size.simps) simp

lemma import_session_SomeD:
  "import_session lib s now = Some e \<Longrightarrow>
   time_Since now (tls_CreatedAt s) \<le> TLSSessionMaxAge \<and> createdAt e = tls_CreatedAt s"
  by (auto simp: import_session_def split: if_splits option.splits)

lemma import_session_SomeI:
  "time_Since now (tls_CreatedAt s) \<le> TLSSessionMaxAge \<Longrightarrow>
   DecodeString lib (tls_Ticket s) = Some ticket \<Longrightarrow>
   DecodeString lib (tls_State s) = Some stateBytes \<Longrightarrow>
   ParseSessionState lib stateBytes = Some st \<Longrightarrow>
   NewResumptionState lib ticket st = Some clientState \<Longrightarrow>
   import_session lib s now = Some \<lparr>state = Some clientState, createdAt = tls_CreatedAt s\<rparr>"
  by (simp add: import_session_def)

text \<open>
  C4, as amended. The given map has each key once. After \<^verbatim>\<open>Import\<close>, every session in
  the cache either was there before, unchanged, or comes from an entry of the given map
  whose \<^verbatim>\<open>CreatedAt\<close> is at most 24 hours before the current time, and carries that
  \<^verbatim>\<open>CreatedAt\<close>: no older entry is inserted. Every entry of the map that is at most 24
  hours old and whose ticket and state decode and parse is stored by the first loop with
  its \<^verbatim>\<open>CreatedAt\<close>, and it is still in the cache when \<^verbatim>\<open>Import\<close> returns if the cache then
  holds no more than 32 sessions; otherwise the size limit may evict it.
\<close>

theorem C4_import_age:
  assumes "distinct (map fst ss)"
  shows "(\<forall>key e. map_of (sessions (Cache_Import lib c ss now)) key = Some e \<longrightarrow>
            map_of (sessions c) key = Some e
            \<or> (\<exists>s. (key, s) \<in> set ss \<and> time_Since now (tls_CreatedAt s) \<le> TLSSessionMaxAge
                    \<and> createdAt e = tls_CreatedAt s))
       \<and> (\<forall>key s ticket stateBytes st clientState.
            (key, s) \<in> set ss
            \<and> time_Since now (tls_CreatedAt s) \<le> TLSSessionMaxAge
            \<and> DecodeString lib (tls_Ticket s) = Some ticket
            \<and> DecodeString lib (tls_State s) = Some stateBytes
            \<and> ParseSessionState lib stateBytes = Some st
            \<and> NewResumptionState lib ticket st = Some clientState
            \<longrightarrow> map_of (sessions (import_sessions lib c ss now)) key
                  = Some \<lparr>state = Some clientState, createdAt = tls_CreatedAt s\<rparr>
                \<and> (length (sessions (import_sessions lib c ss now)) \<le> TLSSessionCacheMaxSize
                    \<longrightarrow> map_of (sessions (Cache_Import lib c ss now)) key
                          = Some \<lparr>state = Some clientState, createdAt = tls_CreatedAt s\<rparr>))"
proof (intro conjI allI impI)
  fix key e
  assume "map_of (sessions (Cache_Import lib c ss now)) key = Some e"
  then have "map_of (sessions (import_sessions lib c ss now)) key = Some e"
    unfolding Cache_Import_def by (rule enforce_max_size_sub)
  from import_sessions_origin [OF this]
  show "map_of (sessions c) key = Some e
        \<or> (\<exists>s. (key, s) \<in> set ss \<and> time_Since now (tls_CreatedAt s) \<le> TLSSessionMaxAge
                \<and> createdAt e = tls_CreatedAt s)"
    using import_session_SomeD by blast
next
  fix key s ticket stateBytes st clientState
  assume a: "(key, s) \<in> set ss
            \<and> time_Since now (tls_CreatedAt s) \<le> TLSSessionMaxAge
            \<and> DecodeString lib (tls_Ticket s) = Some ticket
            \<and> DecodeString lib (tls_State s) = Some stateBytes
            \<and> ParseSessionState lib stateBytes = Some st
            \<and> NewResumptionState lib ticket st = Some clientState"
  then have imp: "import_session lib s now = Some \<lparr>state = Some clientState, createdAt = tls_CreatedAt s\<rparr>"
    by (simp add: import_session_SomeI)
  from a have mem: "(key, s) \<in> set ss" by simp
  show ins: "map_of (sessions (import_sessions lib c ss now)) key
        = Some \<lparr>state = Some clientState, createdAt = tls_CreatedAt s\<rparr>"
    by (rule import_sessions_stores [OF assms mem imp])
  assume "length (sessions (import_sessions lib c ss now)) \<le> TLSSessionCacheMaxSize"
  then show "map_of (sessions (Cache_Import lib c ss now)) key
        = Some \<lparr>state = Some clientState, createdAt = tls_CreatedAt s\<rparr>"
    by (simp add: Cache_Import_def enforce_max_size_small ins)
qed

theorem C4_import_age_witness:
  "distinct (map fst two_sessions)
   \<and> map_of (sessions (Cache_Import plain_library NewPersistableSessionCache two_sessions 90000000000000))
        ''h2:old.test:443'' = None
   \<and> map_of (sessions (Cache_Import plain_library NewPersistableSessionCache two_sessions 90000000000000))
        ''h2:new.test:443'' = Some \<lparr>state = Some (''t1'', ''s1''), createdAt = 80000000000000\<rparr>"
proof -
  let ?c = "NewPersistableSessionCache :: (string \<times> string) PersistableSessionCache"
  let ?now = "90000000000000 :: int"
  have d: "distinct (map fst two_sessions)"
    by (simp add: two_sessions_def)
  note c4 = C4_import_age [OF d, of plain_library ?c ?now]
  have old: "\<not> time_Since ?now (tls_CreatedAt session0) \<le> TLSSessionMaxAge"
    by (simp add: time_Since_def session0_def TLSSessionMaxAge_def)
  have new: "time_Since ?now (tls_CreatedAt session1) \<le> TLSSessionMaxAge"
    by (simp add: time_Since_def session1_def TLSSessionMaxAge_def)
  have 1: "map_of (sessions (Cache_Import plain_library ?c two_sessions ?now)) ''h2:old.test:443'' = None"
  proof (rule ccontr)
    assume "map_of (sessions (Cache_Import plain_library ?c two_sessions ?now)) ''h2:old.test:443'' \<noteq> None"
    then obtain e where "map_of (sessions (Cache_Import plain_library ?c two_sessions ?now)) ''h2:old.test:443'' = Some e"
      by blast
    with c4 have "map_of (sessions ?c) ''h2:old.test:443'' = Some e
        \<or> (\<exists>s. (''h2:old.test:443'', s) \<in> set two_sessions
               \<and> time_Since ?now (tls_CreatedAt s) \<le> TLSSessionMaxAge \<and> createdAt e = tls_CreatedAt s)"
      by blast
    with old show False
      by (auto simp: NewPersistableSessionCache_def two_sessions_def)
  qed
  have len: "length (sessions (import_sessions plain_library ?c two_sessions ?now)) \<le> TLSSessionCacheMaxSize"
    by code_simp
  have "(''h2:new.test:443'', session1) \<in> set two_sessions
        \<and> time_Since ?now (tls_CreatedAt session1) \<le> TLSSessionMaxAge
        \<and> DecodeString plain_library (tls_Ticket session1) = Some ''t1''
        \<and> DecodeString plain_library (tls_State session1) = Some ''s1''
        \<and> ParseSessionState plain_library ''s1'' = Some ''s1''
        \<and> NewResumptionState plain_library ''t1'' ''s1'' = Some (''t1'', ''s1'')"
    using new by (simp add: two_sessions_def plain_library_def session1_def)
  with c4 len
  have 2: "map_of (sessions (Cache_Import plain_library ?c two_sessions ?now)) ''h2:new.test:443''
        = Some \<lparr>state = Some (''t1'', ''s1''), createdAt = tls_CreatedAt session1\<rparr>"
    by blast
  from d 1 2 show ?thesis by (simp add: session1_def)
qed

text \<open>
  C4 as stated promises that every young, well-formed entry is inserted. With 33 such
  entries imported into an empty cache the size limit removes the first one again: it is
  not in the cache when \<^verbatim>\<open>Import\<close> returns.
\<close>

theorem C4_evicted_on_import_counterexample:
  "(nth_key 0, session0) \<in> set many_sessions
   \<and> time_Since 5 (tls_CreatedAt session0) < TLSSessionMaxAge
   \<and> import_session plain_library session0 5 = Some \<lparr>state = Some (''t'', ''s''), createdAt = 0\<rparr>
   \<and> map_of (sessions (Cache_Import plain_library NewPersistableSessionCache many_sessions 5)) (nth_key 0) = None"
  by code_simp

subsection \<open>TLS session cache: the size limit\<close>

text \<open>
  C5 says that the cache never holds more than 32 sessions and that \<^verbatim>\<open>Put\<close> on a new key
  at capacity evicts the least recently used entry. \<^verbatim>\<open>Import\<close> appends the key to
  \<^verbatim>\<open>accessOrder\<close> even when the key is already cached, so the same snapshot imported
  twice leaves the key twice in \<^verbatim>\<open>accessOrder\<close>. After 32 further calls of \<^verbatim>\<open>Put\<close> with
  new keys the cache holds 32 sessions and the front of \<^verbatim>\<open>accessOrder\<close> is a key that
  is no longer cached; the next \<^verbatim>\<open>Put\<close> with a new key deletes nothing and the cache
  holds 33 sessions.
\<close>

theorem C5_count_exceeds_bound:
  "Cache_Count (run_ops plain_library (butlast overflow_ops)) = 32
   \<and> last overflow_ops = OpPut (nth_key 32) None 0
   \<and> map_of (sessions (run_ops plain_library (butlast overflow_ops))) (nth_key 32) = None
   \<and> Cache_Count (run_ops plain_library overflow_ops) = 33
   \<and> distinct (map fst (sessions (run_ops plain_library overflow_ops)))"
  by code_simp

subsection \<open>Warmup planner: the discovered subresources and their batches\<close>

lemma add_resource_inv:
  assumes "parse_inv seen resources"
  shows "parse_inv (fst (add_resource seen resources u t)) (snd (add_resource seen resources u t))
       \<and> length (snd (add_resource seen resources u t)) \<le> Suc (length resources)"
  using assms by (auto simp: parse_inv_def add_resource_def)

lemma tag_step_inv:
  assumes "parse_inv seen resources"
  shows "parse_inv (fst (tag_step toLower resolveURL baseURL t seen resources))
                   (snd (tag_step toLower resolveURL baseURL t seen resources))
       \<and> length (snd (tag_step toLower resolveURL baseURL t seen resources)) \<le> Suc (length resources)"
  using assms add_resource_inv [OF assms]
  by (auto simp: tag_step_def Let_def split: prod.splits option.splits)

lemma parse_tokens_inv:
  "parse_inv seen resources \<Longrightarrow> length resources < maxSubresources \<Longrightarrow>
   length (parse_tokens toLower resolveURL baseURL ts seen resources) \<le> maxSubresources
   \<and> distinct (map res_url (parse_tokens toLower resolveURL baseURL ts seen resources))"
proof (induction ts arbitrary: seen resources)
  case Nil
  then show ?case by (simp add: parse_inv_def)
next
  case (Cons t ts)
  let ?s = "tag_step toLower resolveURL baseURL t seen resources"
  from tag_step_inv [OF Cons.prems(1)]
  have inv: "parse_inv (fst ?s) (snd ?s)" and len: "length (snd ?s) \<le> Suc (length resources)"
    by blast+
  have stop: "length (snd ?s) \<le> maxSubresources \<and> distinct (map res_url (snd ?s))"
    using inv len Cons.prems(2) by (simp add: parse_inv_def)
  have go: "\<not> maxSubresources \<le> length (snd ?s) \<Longrightarrow>
        length (parse_tokens toLower resolveURL baseURL ts (fst ?s) (snd ?s)) \<le> maxSubresources
        \<and> distinct (map res_url (parse_tokens toLower resolveURL baseURL ts (fst ?s) (snd ?s)))"
    using Cons.IH [OF inv] by simp
  have skip: "length (parse_tokens toLower resolveURL baseURL ts seen resources) \<le> maxSubresources
        \<and> distinct (map res_url (parse_tokens toLower resolveURL baseURL ts seen resources))"
    using Cons.IH [OF Cons.prems] .
  have here: "length resources \<le> maxSubresources \<and> distinct (map res_url resources)"
    using Cons.prems by (simp add: parse_inv_def)
  show ?case
    using stop go skip here by (simp only: parse_tokens.simps split: if_split) blast
qed

lemma groupByPriority_filter_aux:
  "fold (\<lambda>r (cssAndFonts, scripts, images).
             case res_typ r of
               resourceCSS \<Rightarrow> (cssAndFonts @ [r], scripts, images)
             | resourceFont \<Rightarrow> (cssAndFonts @ [r], scripts, images)
             | resourceJS \<Rightarrow> (cssAndFonts, scripts @ [r], images)
             | resourceImage \<Rightarrow> (cssAndFonts, scripts, images @ [r]))
        rs (a, b, c) =
   (a @ filter (\<lambda>r. res_typ r = resourceCSS \<or> res_typ r = resourceFont) rs,
    b @ filter (\<lambda>r. res_typ r = resourceJS) rs,
    c @ filter (\<lambda>r. res_typ r = resourceImage) rs)"
proof (induction rs arbitrary: a b c)
  case Nil
  then show ?case by simp
next
  case (Cons r rs)
  then show ?case by (cases "res_typ r") simp_all
qed

lemma groupByPriority_filter:
  "groupByPriority rs =
     (filter (\<lambda>r. res_typ r = resourceCSS \<or> res_typ r = resourceFont) rs,
      filter (\<lambda>r. res_typ r = resourceJS) rs,
      filter (\<lambda>r. res_typ r = resourceImage) rs)"
  by (simp add: groupByPriority_def groupByPriority_filter_aux)

text \<open>
  C6. For every page body and base URL, whatever token sequence the tokenizer yields and
  however references are resolved, \<^verbatim>\<open>parseSubresources\<close> returns at most 50 subresources
  with pairwise distinct resolved URLs. The result is a function of the tokens and the
  base URL alone (the only map of the source, \<^verbatim>\<open>seen\<close>, is read by key and never
  iterated), and \<^verbatim>\<open>groupByPriority\<close> assigns each resource to a batch by its type only,
  keeping the order of discovery: the first batch is the CSS and font resources, the
  second the scripts, the third the images.
\<close>

theorem C6_subresources:
  "length (parseSubresources toLower tokenize resolveURL body baseURL) \<le> 50
   \<and> distinct (map res_url (parseSubresources toLower tokenize resolveURL body baseURL))
   \<and> groupByPriority (parseSubresources toLower tokenize resolveURL body baseURL) =
       (filter (\<lambda>r. res_typ r = resourceCSS \<or> res_typ r = resourceFont)
          (parseSubresources toLower tokenize resolveURL body baseURL),
        filter (\<lambda>r. res_typ r = resourceJS) (parseSubresources toLower tokenize resolveURL body baseURL),
        filter (\<lambda>r. res_typ r = resourceImage) (parseSubresources toLower tokenize resolveURL body baseURL))"
proof -
  have "parse_inv (\<lambda>u. False) []" by (simp add: parse_inv_def)
  from parse_tokens_inv [OF this, of toLower resolveURL baseURL "tokenize body"]
  show ?thesis
    by (simp add: parseSubresources_def maxSubresources_def groupByPriority_filter)
qed

text \<open>The page of the repository's deduplication test, with one script added.\<close>

lemma parseSubresources_dedup_example:
  "parseSubresources ascii_ToLower (\<lambda>body. dedup_tokens) prefix_resolve [] ''https://example.com'' =
     [\<lparr>res_url = ''https://example.com/css/main.css'', res_typ = resourceCSS\<rparr>,
      \<lparr>res_url = ''https://example.com/logo.png'', res_typ = resourceImage\<rparr>,
      \<lparr>res_url = ''https://example.com/app.js'', res_typ = resourceJS\<rparr>]
   \<and> groupByPriority (parseSubresources ascii_ToLower (\<lambda>body. dedup_tokens) prefix_resolve [] ''https://example.com'') =
     ([\<lparr>res_url = ''https://example.com/css/main.css'', res_typ = resourceCSS\<rparr>],
      [\<lparr>res_url = ''https://example.com/app.js'', res_typ = resourceJS\<rparr>],
      [\<lparr>res_url = ''https://example.com/logo.png'', res_typ = resourceImage\<rparr>])"
  by code_simp

subsection \<open>Session snapshots: export, import and import again\<close>

lemma import_domain_map_of:
  "map_of (import_domain m cs t) = map_of m ++ map_of (rev (kept cs t))"
proof (induction cs arbitrary: m)
  case Nil
  then show ?case by (simp add: import_domain_def kept_def)
next
  case (Cons c cs)
  have step: "import_domain m (c # cs) t =
      import_domain (if expired (cs_Expires c) t then m
                     else AList.update (fst (import_cookie c t)) (snd (import_cookie c t)) m) cs t"
    by (simp add: import_domain_def split: prod.splits)
  show ?case
  proof (cases "expired (cs_Expires c) t")
    case True
    then show ?thesis by (simp add: step Cons.IH kept_def)
  next
    case False
    obtain k v where kv: "import_cookie c t = (k, v)" by (cases "import_cookie c t")
    have "kept (c # cs) t = (k, v) # kept cs t"
      using False by (simp add: kept_def kv)
    then show ?thesis
      using False
      by (intro ext) (simp add: step Cons.IH kv update_conv' map_add_def split: option.splits)
  qed
qed

lemma Jar_Import_Cons:
  "Jar_Import j ((d, cs) # rest) t =
     Jar_Import (AList.update d (import_domain (case map_of j d of None \<Rightarrow> [] | Some m \<Rightarrow> m) cs t) j) rest t"
  by (simp add: Jar_Import_def)

lemma jar_lookup_map_of:
  "map_of (case map_of j d of None \<Rightarrow> [] | Some m \<Rightarrow> m) k = jar_lookup j d k"
  by (simp add: jar_lookup_def split: option.splits)

lemma jar_lookup_update:
  "jar_lookup (AList.update d0 m j) d k = (if d = d0 then map_of m k else jar_lookup j d k)"
  by (simp add: jar_lookup_def update_conv')

lemma jar_lookup_update_other:
  "d \<noteq> d0 \<Longrightarrow> jar_lookup (AList.update d0 m j) d = jar_lookup j d"
  by (intro ext) (simp add: jar_lookup_update)

lemma jar_lookup_Import:
  "distinct (map fst snap) \<Longrightarrow>
   jar_lookup (Jar_Import j snap t) d k =
     (case map_of snap d of
        None \<Rightarrow> jar_lookup j d k
      | Some cs \<Rightarrow> ((\<lambda>k. jar_lookup j d k) ++ map_of (rev (kept cs t))) k)"
proof (induction snap arbitrary: j)
  case Nil
  then show ?case by (simp add: Jar_Import_def)
next
  case (Cons p rest)
  obtain d0 cs0 where p: "p = (d0, cs0)" by (cases p)
  let ?j1 = "AList.update d0 (import_domain (case map_of j d0 of None \<Rightarrow> [] | Some m \<Rightarrow> m) cs0 t) j"
  from Cons.prems have dist: "distinct (map fst rest)" and notin: "d0 \<notin> fst ` set rest"
    by (auto simp: p)
  have IH: "jar_lookup (Jar_Import ?j1 rest t) d k =
     (case map_of rest d of
        None \<Rightarrow> jar_lookup ?j1 d k
      | Some cs \<Rightarrow> ((\<lambda>k. jar_lookup ?j1 d k) ++ map_of (rev (kept cs t))) k)"
    by (rule Cons.IH [OF dist])
  show ?case
  proof (cases "d = d0")
    case True
    from notin have "map_of rest d0 = None" by (simp add: map_of_eq_None_iff)
    with IH True show ?thesis
      by (simp add: p Jar_Import_Cons jar_lookup_update import_domain_map_of jar_lookup_map_of [abs_def])
  next
    case False
    with IH show ?thesis
      by (simp add: p Jar_Import_Cons jar_lookup_update_other jar_lookup_update split: option.splits)
  qed
qed

lemma Jar_Export_step: "Jar_Export j t = fold (export_step t) j []"
proof -
  have "(\<lambda>(domain, domainCookies) result.
             let cookies = map export_cookie
                             (filter (\<lambda>c. \<not> expired (Expires c) t) (map snd domainCookies))
             in if length cookies > 0 then AList.update domain cookies result else result)
        = export_step t"
    by (intro ext) (simp add: export_step_def exported_def Let_def split: prod.splits)
  then show ?thesis by (simp add: Jar_Export_def)
qed

lemma export_step_pair:
  "export_step t (d, m) result =
     (if exported m t = [] then result else AList.update d (exported m t) result)"
  by (simp add: export_step_def)

lemma export_fold_map_of:
  "distinct (map fst j) \<Longrightarrow>
   map_of (fold (export_step t) j res) d =
     (case map_of j d of
        None \<Rightarrow> map_of res d
      | Some m \<Rightarrow> if exported m t = [] then map_of res d else Some (exported m t))"
proof (induction j arbitrary: res)
  case Nil
  then show ?case by simp
next
  case (Cons p rest)
  obtain d0 m0 where p: "p = (d0, m0)" by (cases p)
  from Cons.prems have dist: "distinct (map fst rest)" and notin: "map_of rest d0 = None"
    by (auto simp: p map_of_eq_None_iff)
  note IH = Cons.IH [OF dist]
  show ?case
    using notin
    by (auto simp: p IH export_step_pair update_conv' split: option.splits)
qed

lemma export_fold_distinct:
  "distinct (map fst res) \<Longrightarrow> distinct (map fst (fold (export_step t) j res))"
  by (induction j arbitrary: res) (auto simp: export_step_pair distinct_update)

lemma map_of_Jar_Export:
  "distinct (map fst j) \<Longrightarrow>
   map_of (Jar_Export j t) d =
     (case map_of j d of
        None \<Rightarrow> None
      | Some m \<Rightarrow> if exported m t = [] then None else Some (exported m t))"
  by (simp add: Jar_Export_step export_fold_map_of split: option.splits)

lemma distinct_Jar_Export: "distinct (map fst (Jar_Export j t))"
  by (simp add: Jar_Export_step export_fold_distinct)

lemma option_eqI: "(\<And>v. a = Some v \<longleftrightarrow> b = Some v) \<Longrightarrow> a = b"
  by (cases a; cases b) auto

lemma map_of_rev_filter:
  assumes "distinct (map fst m)"
  shows "map_of (rev (filter P m)) k = Some v \<longleftrightarrow> map_of m k = Some v \<and> P (k, v)"
proof -
  have "distinct (map fst (rev (filter P m)))"
    using assms by (simp add: rev_map [symmetric] distinct_map_filter)
  then show ?thesis using assms by auto
qed

lemma expired_mono: "t1 \<le> t2 \<Longrightarrow> expired e t1 \<Longrightarrow> expired e t2"
  by (auto simp: expired_def split: option.splits)

lemma import_export_cookie:
  "key = cookieKey (Path c) (Name c) \<Longrightarrow> Path c \<noteq> [] \<Longrightarrow>
   HostOnly c = (\<not> strings_HasPrefix (Domain c) ''.'') \<Longrightarrow>
   import_cookie (export_cookie c) t = (key, c)"
  by (cases c) (simp add: import_cookie_def export_cookie_def Let_def)

lemma kept_exported:
  assumes "\<forall>(key, c) \<in> set m. key = cookieKey (Path c) (Name c) \<and> Path c \<noteq> []
                \<and> HostOnly c = (\<not> strings_HasPrefix (Domain c) ''.'')"
      and "t1 \<le> t2"
  shows "kept (exported m t1) t2 = filter (\<lambda>(key, c). \<not> expired (Expires c) t2) m"
  using assms(1)
proof (induction m)
  case Nil
  then show ?case by (simp add: kept_def exported_def)
next
  case (Cons p m)
  obtain k c where p: "p = (k, c)" by (cases p)
  from Cons.prems have wf: "import_cookie (export_cookie c) t2 = (k, c)"
    by (simp add: p import_export_cookie)
  from Cons have IH: "kept (exported m t1) t2 = filter (\<lambda>(key, c). \<not> expired (Expires c) t2) m"
    by simp
  have e: "cs_Expires (export_cookie c) = Expires c" by (simp add: export_cookie_def)
  show ?case
  proof (cases "expired (Expires c) t1")
    case True
    with assms(2) have "expired (Expires c) t2" by (blast intro: expired_mono)
    with True IH show ?thesis
      by (simp add: p kept_def exported_def)
  next
    case False
    have "exported (p # m) t1 = export_cookie c # exported m t1"
      using False by (simp add: p exported_def)
    then show ?thesis
      using IH wf by (simp add: p kept_def e)
  qed
qed

lemma exported_Nil_iff: "exported m t = [] \<longleftrightarrow> (\<forall>(key, c) \<in> set m. expired (Expires c) t)"
  by (auto simp: exported_def filter_empty_conv)

lemma kept_snapshot_lookup:
  assumes "jar_scoped j" and "t1 \<le> t2" and "map_of (Jar_Export j t1) d = Some cs"
  shows "map_of (rev (kept cs t2)) k = unexpired_lookup j t2 d k"
proof -
  from assms(1) have dj: "distinct (map fst j)" by (simp add: jar_scoped_def)
  from assms(3) obtain m where m: "map_of j d = Some m" and cs: "cs = exported m t1"
    by (auto simp: map_of_Jar_Export [OF dj] split: option.splits if_splits)
  from m have "(d, m) \<in> set j" by (rule map_of_SomeD)
  with assms(1) have dm: "distinct (map fst m)"
    and wf: "\<forall>(key, c) \<in> set m. key = cookieKey (Path c) (Name c) \<and> Path c \<noteq> []
                \<and> HostOnly c = (\<not> strings_HasPrefix (Domain c) ''.'')"
    by (auto simp: jar_scoped_def)
  have k: "kept cs t2 = filter (\<lambda>(key, c). \<not> expired (Expires c) t2) m"
    unfolding cs by (rule kept_exported [OF wf assms(2)])
  show ?thesis
    by (rule option_eqI)
       (auto simp: k map_of_rev_filter [OF dm] unexpired_lookup_def jar_lookup_def m
             split: if_splits option.splits)
qed

lemma no_snapshot_lookup:
  assumes "jar_scoped j" and "t1 \<le> t2" and "map_of (Jar_Export j t1) d = None"
  shows "unexpired_lookup j t2 d k = None"
proof (cases "map_of j d")
  case None
  then show ?thesis by (simp add: unexpired_lookup_def jar_lookup_def)
next
  case (Some m)
  from assms(1) have dj: "distinct (map fst j)" by (simp add: jar_scoped_def)
  from assms(3) Some have "exported m t1 = []"
    by (simp add: map_of_Jar_Export [OF dj] split: if_splits)
  then have all: "\<forall>(key, c) \<in> set m. expired (Expires c) t1"
    by (simp add: exported_Nil_iff)
  show ?thesis
  proof (cases "map_of m k")
    case None
    with Some show ?thesis by (simp add: unexpired_lookup_def jar_lookup_def)
  next
    case (Some c)
    then have "(k, c) \<in> set m" by (rule map_of_SomeD)
    with all have "expired (Expires c) t1" by auto
    with assms(2) have "expired (Expires c) t2" by (blast intro: expired_mono)
    with Some \<open>map_of j d = Some m\<close> show ?thesis
      by (simp add: unexpired_lookup_def jar_lookup_def)
  qed
qed

lemma cookie_roundtrip:
  assumes "jar_scoped j" and "t1 \<le> t2"
  shows "jar_lookup (Jar_Import j0 (Jar_Export j t1) t2) d k =
           (case map_of (Jar_Export j t1) d of
              None \<Rightarrow> jar_lookup j0 d k
            | Some cs \<Rightarrow> (case unexpired_lookup j t2 d k of
                            None \<Rightarrow> jar_lookup j0 d k | Some c \<Rightarrow> Some c))"
proof (cases "map_of (Jar_Export j t1) d")
  case None
  then show ?thesis by (simp add: jar_lookup_Import [OF distinct_Jar_Export])
next
  case (Some cs)
  from kept_snapshot_lookup [OF assms Some]
  show ?thesis
    by (simp add: jar_lookup_Import [OF distinct_Jar_Export] Some map_add_def)
qed

lemma jar_lookup_Nil: "jar_lookup [] d k = None"
  by (simp add: jar_lookup_def)

lemma cookie_roundtrip_empty:
  assumes "jar_scoped j" and "t1 \<le> t2"
  shows "jar_lookup (Jar_Import [] (Jar_Export j t1) t2) d k = unexpired_lookup j t2 d k"
proof (cases "map_of (Jar_Export j t1) d")
  case None
  with no_snapshot_lookup [OF assms None] show ?thesis
    by (simp add: cookie_roundtrip [OF assms] jar_lookup_Nil)
next
  case (Some cs)
  then show ?thesis
    by (simp add: cookie_roundtrip [OF assms] jar_lookup_Nil split: option.splits)
qed

lemma unexpired_lookup_mono:
  "t2 \<le> t3 \<Longrightarrow> unexpired_lookup j t3 d k = Some c \<Longrightarrow> unexpired_lookup j t2 d k = Some c"
  by (auto simp: unexpired_lookup_def split: option.splits if_splits dest: expired_mono)

lemma cookie_reimport:
  assumes "jar_scoped j" and "t1 \<le> t2" and "t2 \<le> t3"
  shows "jar_lookup (Jar_Import (Jar_Import [] (Jar_Export j t1) t2) (Jar_Export j t1) t3) d k =
         jar_lookup (Jar_Import [] (Jar_Export j t1) t2) d k"
proof -
  from assms have t13: "t1 \<le> t3" by simp
  show ?thesis
    using unexpired_lookup_mono [OF assms(3), of j d k]
    by (simp add: cookie_roundtrip [OF assms(1) t13] cookie_roundtrip_empty [OF assms(1,2)]
             split: option.splits)
qed

lemma import_sessions_map_of:
  "distinct (map fst ss) \<Longrightarrow>
   map_of (sessions (import_sessions lib c ss now)) k =
     (case map_of ss k of
        None \<Rightarrow> map_of (sessions c) k
      | Some s \<Rightarrow> (case import_session lib s now of
                     None \<Rightarrow> map_of (sessions c) k | Some e \<Rightarrow> Some e))"
proof (induction ss arbitrary: c)
  case Nil
  then show ?case by (simp add: import_sessions_Nil)
next
  case (Cons p ss)
  obtain k0 s0 where p: "p = (k0, s0)" by (cases p)
  from Cons.prems have dist: "distinct (map fst ss)" and notin: "map_of ss k0 = None"
    by (auto simp: p map_of_eq_None_iff)
  note IH = Cons.IH [OF dist]
  show ?case
    using notin
    by (cases "import_session lib s0 now")
       (auto simp: p import_sessions_Cons IH update_conv' split: option.splits)
qed

lemma import_sessions_keys:
  "fst ` set (sessions (import_sessions lib c ss now)) \<subseteq> fst ` set (sessions c) \<union> fst ` set ss"
proof (induction ss arbitrary: c)
  case Nil
  then show ?case by (simp add: import_sessions_Nil)
next
  case (Cons p ss)
  obtain k0 s0 where p: "p = (k0, s0)" by (cases p)
  show ?case
  proof (cases "import_session lib s0 now")
    case None
    with Cons.IH [of c] show ?thesis
      by (auto simp: p import_sessions_Cons)
  next
    case (Some e)
    let ?c = "c\<lparr>sessions := AList.update k0 e (sessions c), accessOrder := accessOrder c @ [k0]\<rparr>"
    from Cons.IH [of ?c] Some show ?thesis
      by (auto simp: p import_sessions_Cons dom_update)
  qed
qed

lemma import_sessions_distinct:
  "distinct (map fst (sessions c)) \<Longrightarrow> distinct (map fst (sessions (import_sessions lib c ss now)))"
proof (induction ss arbitrary: c)
  case Nil
  then show ?case by (simp add: import_sessions_Nil)
next
  case (Cons p ss)
  obtain k0 s0 where p: "p = (k0, s0)" by (cases p)
  show ?case
    using Cons.prems
    by (cases "import_session lib s0 now") (simp_all add: p import_sessions_Cons Cons.IH distinct_update)
qed

lemma import_sessions_length:
  assumes "distinct (map fst (sessions c))" and "fst ` set (sessions c) \<subseteq> fst ` set ss"
  shows "length (sessions (import_sessions lib c ss now)) \<le> length ss"
proof -
  let ?r = "sessions (import_sessions lib c ss now)"
  have "distinct (map fst ?r)" by (rule import_sessions_distinct [OF assms(1)])
  then have "length ?r = card (fst ` set ?r)"
    by (metis distinct_card length_map set_map)
  also have "\<dots> \<le> card (fst ` set ss)"
    using import_sessions_keys [of lib c ss now] assms(2)
    by (intro card_mono) auto
  also have "\<dots> \<le> length ss"
    by (metis card_length length_map set_map)
  finally show ?thesis .
qed

lemma Cache_Export_step: "Cache_Export lib c = fold (export_session_step lib) (sessions c) []"
proof -
  have "(\<lambda>(key, cached) result.
             case export_session lib cached of
               None \<Rightarrow> result
             | Some serialized \<Rightarrow> AList.update key serialized result)
        = export_session_step lib"
    by (intro ext) (simp add: export_session_step_def split: prod.splits option.splits)
  then show ?thesis by (simp add: Cache_Export_def)
qed

lemma export_session_step_pair:
  "export_session_step lib (k, cached) result =
     (case export_session lib cached of
        None \<Rightarrow> result
      | Some serialized \<Rightarrow> AList.update k serialized result)"
  by (simp add: export_session_step_def split: option.splits)

lemma export_sessions_map_of:
  "distinct (map fst xs) \<Longrightarrow>
   map_of (fold (export_session_step lib) xs res) k =
     (case map_of xs k of
        None \<Rightarrow> map_of res k
      | Some cached \<Rightarrow> (case export_session lib cached of
                          None \<Rightarrow> map_of res k | Some s \<Rightarrow> Some s))"
proof (induction xs arbitrary: res)
  case Nil
  then show ?case by simp
next
  case (Cons p xs)
  obtain k0 c0 where p: "p = (k0, c0)" by (cases p)
  from Cons.prems have dist: "distinct (map fst xs)" and notin: "map_of xs k0 = None"
    by (auto simp: p map_of_eq_None_iff)
  note IH = Cons.IH [OF dist]
  show ?case
    using notin
    by (auto simp: p IH export_session_step_pair update_conv' split: option.splits)
qed

lemma export_sessions_distinct:
  "distinct (map fst res) \<Longrightarrow> distinct (map fst (fold (export_session_step lib) xs res))"
  by (induction xs arbitrary: res)
     (auto simp: export_session_step_pair distinct_update split: option.splits)

lemma export_sessions_length:
  "length (fold (export_session_step lib) xs res) \<le> length res + length xs"
proof (induction xs arbitrary: res)
  case Nil
  then show ?case by simp
next
  case (Cons p xs)
  obtain k0 c0 where p: "p = (k0, c0)" by (cases p)
  have "length (AList.update k v res) \<le> Suc (length res)" for k and v :: TLSSessionState
    by (induction res) auto
  then have "length (export_session_step lib p res) \<le> Suc (length res)"
    by (auto simp: p export_session_step_pair split: option.splits)
  with Cons.IH [of "export_session_step lib p res"] show ?case by simp
qed

lemma map_of_Cache_Export:
  "distinct (map fst (sessions c)) \<Longrightarrow>
   map_of (Cache_Export lib c) k =
     (case map_of (sessions c) k of None \<Rightarrow> None | Some cached \<Rightarrow> export_session lib cached)"
  by (simp add: Cache_Export_step export_sessions_map_of split: option.splits)

lemma distinct_Cache_Export: "distinct (map fst (Cache_Export lib c))"
  by (simp add: Cache_Export_step export_sessions_distinct)

lemma length_Cache_Export: "length (Cache_Export lib c) \<le> length (sessions c)"
  using export_sessions_length [of lib "sessions c" "[]"] by (simp add: Cache_Export_step)

lemma time_Since_mono: "t2 \<le> t3 \<Longrightarrow> time_Since t2 t \<le> time_Since t3 t"
  by (simp add: time_Since_def Let_def)

lemma import_session_other_time:
  "import_session lib s t0 = Some e \<Longrightarrow>
   import_session lib s t =
     (if time_Since t (tls_CreatedAt s) > TLSSessionMaxAge then None else Some e)"
  by (auto simp: import_session_def split: if_splits option.splits)

lemma export_session_CreatedAt:
  "export_session lib cached = Some s \<Longrightarrow> tls_CreatedAt s = createdAt cached"
  by (auto simp: export_session_def split: option.splits)

lemma export_import_session:
  assumes "\<forall>cs. state cached = Some cs \<longrightarrow> library_reads_back lib cs"
      and "export_session lib cached = Some s"
  shows "import_session lib s (createdAt cached) = Some cached"
proof -
  from assms(2) obtain cs ticket st stateBytes where
    st: "state cached = Some cs" and r: "ResumptionState lib cs = Some (Some ticket, Some st)"
    and b: "Bytes lib st = Some stateBytes"
    and s: "s = \<lparr>tls_Ticket = EncodeToString lib ticket, tls_State = EncodeToString lib stateBytes,
                 tls_CreatedAt = createdAt cached\<rparr>"
    by (auto simp: export_session_def split: option.splits)
  from assms(1) st r b
  have laws: "DecodeString lib (EncodeToString lib ticket) = Some ticket"
    "DecodeString lib (EncodeToString lib stateBytes) = Some stateBytes"
    "ParseSessionState lib stateBytes = Some st"
    "NewResumptionState lib ticket st = Some cs"
    unfolding library_reads_back_def by blast+
  have "\<lparr>state = Some cs, createdAt = createdAt cached\<rparr> = cached"
    using st by (cases cached) simp
  then show ?thesis
    by (simp add: import_session_def s laws time_Since_def TLSSessionMaxAge_def)
qed

lemma snapshot_import_session:
  assumes "cache_restorable lib c"
  shows "(case map_of (Cache_Export lib c) k of None \<Rightarrow> None | Some s \<Rightarrow> import_session lib s t)
         = restored_lookup lib c t k"
proof -
  from assms have d: "distinct (map fst (sessions c))" by (simp add: cache_restorable_def)
  show ?thesis
  proof (cases "map_of (sessions c) k")
    case None
    then show ?thesis by (simp add: map_of_Cache_Export [OF d] restored_lookup_def)
  next
    case (Some cached)
    then have mem: "(k, cached) \<in> set (sessions c)" by (rule map_of_SomeD)
    show ?thesis
    proof (cases "export_session lib cached")
      case None
      with Some show ?thesis by (simp add: map_of_Cache_Export [OF d] restored_lookup_def)
    next
      case (Some s)
      from assms mem have "\<forall>cs. state cached = Some cs \<longrightarrow> library_reads_back lib cs"
        by (auto simp: cache_restorable_def)
      from export_import_session [OF this Some]
      have "import_session lib s (createdAt cached) = Some cached" .
      from import_session_other_time [OF this, of t] export_session_CreatedAt [OF Some]
      show ?thesis
        using Some \<open>map_of (sessions c) k = Some cached\<close>
        by (simp add: map_of_Cache_Export [OF d] restored_lookup_def)
    qed
  qed
qed

lemma import_snapshot_lookup:
  assumes "cache_restorable lib c"
  shows "map_of (sessions (import_sessions lib c0 (Cache_Export lib c) t)) k =
           (case restored_lookup lib c t k of None \<Rightarrow> map_of (sessions c0) k | Some e \<Rightarrow> Some e)"
  unfolding snapshot_import_session [OF assms, symmetric]
  by (simp add: import_sessions_map_of [OF distinct_Cache_Export] split: option.splits)

lemma snapshot_small:
  "cache_restorable lib c \<Longrightarrow> length (Cache_Export lib c) \<le> TLSSessionCacheMaxSize"
  using length_Cache_Export [of lib c] by (simp add: cache_restorable_def)

lemma Cache_Import_snapshot_new:
  assumes "cache_restorable lib c"
  shows "Cache_Import lib NewPersistableSessionCache (Cache_Export lib c) t =
         import_sessions lib NewPersistableSessionCache (Cache_Export lib c) t"
proof -
  have "length (sessions (import_sessions lib NewPersistableSessionCache (Cache_Export lib c) t))
        \<le> length (Cache_Export lib c)"
    by (rule import_sessions_length) (simp_all add: NewPersistableSessionCache_def)
  with snapshot_small [OF assms] show ?thesis
    by (simp add: Cache_Import_def enforce_max_size_small)
qed

lemma Cache_Import_snapshot_again:
  assumes "cache_restorable lib c"
  shows "Cache_Import lib (import_sessions lib NewPersistableSessionCache (Cache_Export lib c) t2)
           (Cache_Export lib c) t3 =
         import_sessions lib (import_sessions lib NewPersistableSessionCache (Cache_Export lib c) t2)
           (Cache_Export lib c) t3"
proof -
  let ?snap = "Cache_Export lib c"
  let ?c1 = "import_sessions lib NewPersistableSessionCache ?snap t2"
  have d1: "distinct (map fst (sessions ?c1))"
    by (rule import_sessions_distinct) (simp add: NewPersistableSessionCache_def)
  have k1: "fst ` set (sessions ?c1) \<subseteq> fst ` set ?snap"
    using import_sessions_keys [of lib NewPersistableSessionCache ?snap t2]
    by (simp add: NewPersistableSessionCache_def)
  have "length (sessions (import_sessions lib ?c1 ?snap t3)) \<le> length ?snap"
    by (rule import_sessions_length [OF d1 k1])
  with snapshot_small [OF assms] show ?thesis
    by (simp add: Cache_Import_def enforce_max_size_small)
qed

lemma sessions_New: "sessions NewPersistableSessionCache = []"
  by (simp add: NewPersistableSessionCache_def)

lemma restored_lookup_mono:
  assumes "t2 \<le> t3" and "restored_lookup lib c t3 k = Some e"
  shows "restored_lookup lib c t2 k = Some e"
proof -
  from assms(2) have m: "map_of (sessions c) k = Some e" and x: "export_session lib e \<noteq> None"
    and le: "time_Since t3 (createdAt e) \<le> TLSSessionMaxAge"
    by (auto simp: restored_lookup_def split: option.splits if_splits)
  from time_Since_mono [OF assms(1), of "createdAt e"] le
  have "time_Since t2 (createdAt e) \<le> TLSSessionMaxAge" by simp
  with m x show ?thesis by (simp add: restored_lookup_def)
qed

text \<open>
  What a snapshot does restore. Take a jar in which every cookie has \<^verbatim>\<open>HostOnly\<close> set
  exactly when its domain has no leading dot, as \<^verbatim>\<open>Set\<close> stores cookies, and a cache of at
  most 32 sessions that the libraries read back. Export at time \<open>t1\<close> and import into an
  empty jar and an empty cache at a later time \<open>t2\<close>: under every domain and key the jar
  then holds exactly the original cookie, all fields intact, if that cookie is not
  expired at \<open>t2\<close>, and nothing otherwise; under every session key the cache holds exactly
  the original session with its \<^verbatim>\<open>createdAt\<close> if \<^verbatim>\<open>Export\<close> could serialise it and it is at
  most 24 hours old at \<open>t2\<close>, and nothing otherwise. Importing the same snapshot once more
  at a later time \<open>t3\<close> changes no cookie and no cached session; what it does to
  \<^verbatim>\<open>accessOrder\<close> is another matter.
\<close>

lemma snapshot_roundtrip_scoped:
  assumes "jar_scoped j" and "cache_restorable lib c" and "t1 \<le> t2" and "t2 \<le> t3"
  shows "jar_lookup (Jar_Import NewCookieJar (Jar_Export j t1) t2) d k =
           (case jar_lookup j d k of
              None \<Rightarrow> None
            | Some ck \<Rightarrow> if expired (Expires ck) t2 then None else Some ck)
       \<and> map_of (sessions (Cache_Import lib NewPersistableSessionCache (Cache_Export lib c) t2)) key =
           (case map_of (sessions c) key of
              None \<Rightarrow> None
            | Some cached \<Rightarrow>
                if export_session lib cached = None
                   \<or> time_Since t2 (createdAt cached) > TLSSessionMaxAge
                then None else Some cached)
       \<and> jar_lookup (Jar_Import (Jar_Import NewCookieJar (Jar_Export j t1) t2) (Jar_Export j t1) t3) d k =
           jar_lookup (Jar_Import NewCookieJar (Jar_Export j t1) t2) d k
       \<and> map_of (sessions (Cache_Import lib
                    (Cache_Import lib NewPersistableSessionCache (Cache_Export lib c) t2)
                    (Cache_Export lib c) t3)) key =
           map_of (sessions (Cache_Import lib NewPersistableSessionCache (Cache_Export lib c) t2)) key"
proof (intro conjI)
  show "jar_lookup (Jar_Import NewCookieJar (Jar_Export j t1) t2) d k =
           (case jar_lookup j d k of
              None \<Rightarrow> None
            | Some ck \<Rightarrow> if expired (Expires ck) t2 then None else Some ck)"
    using cookie_roundtrip_empty [OF assms(1,3)]
    by (simp add: NewCookieJar_def unexpired_lookup_def)
  show "jar_lookup (Jar_Import (Jar_Import NewCookieJar (Jar_Export j t1) t2) (Jar_Export j t1) t3) d k =
           jar_lookup (Jar_Import NewCookieJar (Jar_Export j t1) t2) d k"
    using cookie_reimport [OF assms(1,3,4)] by (simp add: NewCookieJar_def)
  have ins: "map_of (sessions (import_sessions lib NewPersistableSessionCache (Cache_Export lib c) t2)) key
        = restored_lookup lib c t2 key"
    by (simp add: import_snapshot_lookup [OF assms(2)] sessions_New split: option.splits)
  then have first: "map_of (sessions (Cache_Import lib NewPersistableSessionCache (Cache_Export lib c) t2)) key
        = restored_lookup lib c t2 key"
    by (simp add: Cache_Import_snapshot_new [OF assms(2)])
  then show "map_of (sessions (Cache_Import lib NewPersistableSessionCache (Cache_Export lib c) t2)) key =
           (case map_of (sessions c) key of
              None \<Rightarrow> None
            | Some cached \<Rightarrow>
                if export_session lib cached = None
                   \<or> time_Since t2 (createdAt cached) > TLSSessionMaxAge
                then None else Some cached)"
    by (simp add: restored_lookup_def)
  have "map_of (sessions (Cache_Import lib
                    (Cache_Import lib NewPersistableSessionCache (Cache_Export lib c) t2)
                    (Cache_Export lib c) t3)) key =
        (case restored_lookup lib c t3 key of
           None \<Rightarrow> restored_lookup lib c t2 key | Some e \<Rightarrow> Some e)"
    unfolding Cache_Import_snapshot_new [OF assms(2)] Cache_Import_snapshot_again [OF assms(2)]
      import_snapshot_lookup [OF assms(2), where ?c0.0 = "import_sessions lib NewPersistableSessionCache (Cache_Export lib c) t2" and t = t3]
      ins
    by (rule refl)
  also have "\<dots> = restored_lookup lib c t2 key"
    using restored_lookup_mono [OF assms(4), of lib c key]
    by (simp split: option.splits)
  finally show "map_of (sessions (Cache_Import lib
                    (Cache_Import lib NewPersistableSessionCache (Cache_Export lib c) t2)
                    (Cache_Export lib c) t3)) key =
           map_of (sessions (Cache_Import lib NewPersistableSessionCache (Cache_Export lib c) t2)) key"
    using first by simp
qed

lemma snapshot_roundtrip_scoped_example:
  "jar_scoped jar1 \<and> cache_restorable plain_library cache1
   \<and> jar_lookup (Jar_Import NewCookieJar (Jar_Export jar1 1) 2) ''.example.test'' (cookieKey ''/'' ''sid'')
       = Some cookie1
   \<and> map_of (sessions (Cache_Import plain_library NewPersistableSessionCache
                         (Cache_Export plain_library cache1) 2)) ''h2:example.test:443''
       = Some \<lparr>state = Some (''t'', ''s''), createdAt = 0\<rparr>
   \<and> jar_lookup (Jar_Import (Jar_Import NewCookieJar (Jar_Export jar1 1) 2) (Jar_Export jar1 1) 3)
         ''.example.test'' (cookieKey ''/'' ''sid'') = Some cookie1"
proof -
  have s: "jar_scoped jar1"
    by (simp add: jar_scoped_def jar1_def cookie1_def strings_HasPrefix_def)
  have r: "cache_restorable plain_library cache1"
    by (simp add: cache_restorable_def library_reads_back_def plain_library_def cache1_def
          TLSSessionCacheMaxSize_def)
  have t: "(1::int) \<le> 2" "(2::int) \<le> 3" by simp_all
  have e: "\<not> expired (Expires cookie1) 2"
    by (simp add: expired_def cookie1_def)
  have l: "jar_lookup jar1 ''.example.test'' (cookieKey ''/'' ''sid'') = Some cookie1"
    by (simp add: jar_lookup_def jar1_def)
  have m: "map_of (sessions cache1) ''h2:example.test:443'' = Some \<lparr>state = Some (''t'', ''s''), createdAt = 0\<rparr>"
    by (simp add: cache1_def)
  have x: "export_session plain_library \<lparr>state = Some (''t'', ''s''), createdAt = 0\<rparr> \<noteq> None"
    by (simp add: export_session_def plain_library_def)
  have a: "\<not> time_Since 2 0 > TLSSessionMaxAge"
    by (simp add: time_Since_def TLSSessionMaxAge_def)
  from snapshot_roundtrip_scoped [OF s r t, of "''.example.test''" "cookieKey ''/'' ''sid''" "''h2:example.test:443''"]
  show ?thesis
    using s r e l m x a by simp
qed

text \<open>
  C3 says that exporting the session state and importing it into an empty store yields an
  equal state, every unexpired cookie and every young TLS session with its fields intact,
  and that importing the same snapshot a second time changes nothing. The code does
  neither. A cookie set by name and value has the empty domain and \<^verbatim>\<open>HostOnly\<close> false and
  is sent to every host; the snapshot has no field for \<^verbatim>\<open>HostOnly\<close>, \<^verbatim>\<open>Import\<close> sets it
  whenever the domain has no leading dot, and the restored jar holds the cookie with
  \<^verbatim>\<open>HostOnly\<close> true and sends it to no host. And the second import of a snapshot of a
  cache with one session appends the key to \<^verbatim>\<open>accessOrder\<close> once more, so that the cache
  is not the one that the first import left.
\<close>

theorem C3_roundtrip_changes_state:
  "jar_lookup simple_jar [] (cookieKey ''/'' ''a'')
     = Some \<lparr>Name = ''a'', Value = ''b'', Domain = [], HostOnly = False, Path = ''/'',
              Expires = None, MaxAge = 0, Secure = False, HttpOnly = False, SameSite = [],
              CreatedAt = 0\<rparr>
   \<and> jar_lookup simple_jar_restored [] (cookieKey ''/'' ''a'')
     = Some \<lparr>Name = ''a'', Value = ''b'', Domain = [], HostOnly = True, Path = ''/'',
              Expires = None, MaxAge = 0, Secure = False, HttpOnly = False, SameSite = [],
              CreatedAt = 0\<rparr>
   \<and> map Name (Get ascii_ToLower simple_jar ''example.com'' ''/'' True 0) = [''a'']
   \<and> Get ascii_ToLower simple_jar_restored ''example.com'' ''/'' True 0 = []
   \<and> map fst (sessions cache1_restored) = [''h2:example.test:443'']
   \<and> accessOrder cache1_restored = [''h2:example.test:443'']
   \<and> accessOrder (Cache_Import plain_library cache1_restored (Cache_Export plain_library cache1) 0)
       = [''h2:example.test:443'', ''h2:example.test:443'']
   \<and> Cache_Import plain_library cache1_restored (Cache_Export plain_library cache1) 0
       \<noteq> cache1_restored"
  by code_simp

subsection \<open>TLS session cache: the size limit without Import\<close>

text \<open>
  As long as \<^verbatim>\<open>accessOrder\<close> lists every cached key exactly once, \<^verbatim>\<open>Put\<close>, \<^verbatim>\<open>Get\<close> and
  \<^verbatim>\<open>Clear\<close> keep it so and keep the cache within 32 sessions: a run without \<^verbatim>\<open>Import\<close>
  never exceeds the limit.
\<close>

lemma length_delete_present:
  assumes "distinct (map fst al)" and "k \<in> fst ` set al"
  shows "Suc (length (AList.delete k al)) = length al"
  using assms by (induction al) (auto simp: image_iff)

lemma length_update_new:
  "k \<notin> fst ` set al \<Longrightarrow> length (AList.update k v al) = Suc (length al)"
  by (induction al) auto

lemma length_update_present:
  "k \<in> fst ` set al \<Longrightarrow> length (AList.update k v al) = length al"
  by (induction al) auto

lemma moveToEnd_ok:
  "cache_ok c \<Longrightarrow> cache_ok (moveToEnd c key)"
  by (auto simp: cache_ok_def moveToEnd_def)

lemma Cache_Put_ok:
  assumes "cache_ok c"
  shows "cache_ok (Cache_Put c key cs now)"
proof (cases "map_of (sessions c) key")
  case (Some old)
  then have mem: "key \<in> fst ` set (sessions c)"
    by (metis domI dom_map_of_conv_image_fst)
  let ?c = "c\<lparr>sessions := AList.update key \<lparr>state = cs, createdAt = now\<rparr> (sessions c)\<rparr>"
  have "cache_ok ?c"
    using assms mem
    by (auto simp: cache_ok_def distinct_update dom_update length_update_present)
  then show ?thesis
    using Some by (simp add: Cache_Put_def moveToEnd_ok)
next
  case None
  then have new: "key \<notin> fst ` set (sessions c)"
    by (simp add: map_of_eq_None_iff)
  show ?thesis
  proof (cases "length (sessions c) \<ge> TLSSessionCacheMaxSize \<and> length (accessOrder c) > 0")
    case True
    then obtain oldest rest where ao: "accessOrder c = oldest # rest"
      by (cases "accessOrder c") auto
    with assms have old: "oldest \<in> fst ` set (sessions c)" and nr: "oldest \<notin> set rest"
      and dr: "distinct rest" and sr: "set rest = fst ` set (sessions c) - {oldest}"
      by (auto simp: cache_ok_def)
    from assms have d: "distinct (map fst (sessions c))" and le: "length (sessions c) \<le> TLSSessionCacheMaxSize"
      by (simp_all add: cache_ok_def)
    let ?s = "AList.delete oldest (sessions c)"
    have ks: "fst ` set ?s = fst ` set (sessions c) - {oldest}"
      by (simp add: set_map [symmetric] delete_keys del: set_map)
    have ds: "distinct (map fst ?s)" using d by (rule distinct_delete)
    have ls: "Suc (length ?s) = length (sessions c)"
      by (rule length_delete_present [OF d old])
    have newk: "key \<notin> fst ` set ?s" using new ks by blast
    have "cache_ok (c\<lparr>sessions := AList.update key \<lparr>state = cs, createdAt = now\<rparr> ?s,
                       accessOrder := rest @ [key]\<rparr>)"
      using ds dr sr ks newk new ls le
      by (auto simp: cache_ok_def distinct_update dom_update length_update_new)
    then show ?thesis
      using None True ao by (simp add: Cache_Put_def Let_def)
  next
    case False
    from assms have "accessOrder c = [] \<Longrightarrow> sessions c = []"
      by (auto simp: cache_ok_def)
    with False have lt: "length (sessions c) < TLSSessionCacheMaxSize"
      by (cases "accessOrder c") (auto simp: TLSSessionCacheMaxSize_def)
    have "cache_ok (c\<lparr>sessions := AList.update key \<lparr>state = cs, createdAt = now\<rparr> (sessions c),
                       accessOrder := accessOrder c @ [key]\<rparr>)"
      using assms new lt
      by (auto simp: cache_ok_def distinct_update dom_update length_update_new)
    then show ?thesis
      using None False by (auto simp: Cache_Put_def Let_def)
  qed
qed

lemma Cache_Get_ok: "cache_ok c \<Longrightarrow> cache_ok (fst (Cache_Get c key))"
  by (simp add: Cache_Get_def moveToEnd_ok split: option.splits)

lemma Cache_Clear_ok: "cache_ok (Cache_Clear c)"
  by (simp add: Cache_Clear_def cache_ok_def)

lemma apply_op_ok:
  "cache_ok c \<Longrightarrow> \<not> is_import op \<Longrightarrow> cache_ok (apply_op lib c op)"
  by (cases op) (simp_all add: Cache_Put_ok Cache_Get_ok Cache_Clear_ok)

lemma foldl_ops_ok:
  "cache_ok c \<Longrightarrow> \<forall>op \<in> set ops. \<not> is_import op \<Longrightarrow> cache_ok (foldl (apply_op lib) c ops)"
  by (induction ops arbitrary: c) (simp_all add: apply_op_ok)

lemma count_bounded_without_import:
  assumes "\<forall>op \<in> set ops. \<not> is_import op"
  shows "Cache_Count (run_ops lib ops) \<le> TLSSessionCacheMaxSize"
proof -
  have "cache_ok (NewPersistableSessionCache :: 'a PersistableSessionCache)"
    by (simp add: cache_ok_def NewPersistableSessionCache_def)
  from foldl_ops_ok [OF this assms, of lib] show ?thesis
    by (simp add: run_ops_def Cache_Count_def cache_ok_def)
qed

end
